theory Spec2Isabelle
  imports Main
begin

section \<open>JavaScript values\<close>

text \<open>
  The values the client handles: what \<^verbatim>\<open>JSON.parse\<close> returns, what is kept in
  \<^verbatim>\<open>this.token\<close>, and \<^verbatim>\<open>undefined\<close> for a property that is not there.
  Numbers are restricted to the integers below \<open>2 ^ 53\<close> in magnitude: a double
  holds each of them exactly and string coercion prints it in plain decimal digits.
  Fractions and larger numbers (printed from their shortest digits, in exponent form
  from \<open>1e21\<close> on) are left out.
\<close>

typedef safe_int = "{n :: int. - (2 ^ 53) < n \<and> n < 2 ^ 53}"
  by (rule exI [of _ 0]) simp

datatype js =
    JUndefined
  | JNull
  | JBool bool
  | JNum safe_int
  | JStr string
  | JArr "js list"
  | JObj "(string \<times> js) list"

text \<open>The errors a promise of the client can be rejected with, by JavaScript class.\<close>

datatype error = TypeError | SyntaxError | Error string

text \<open>Truthiness, as used by \<^verbatim>\<open>if (x)\<close>, \<^verbatim>\<open>x && y\<close> and \<^verbatim>\<open>x || y\<close>.\<close>

fun truthy :: "js \<Rightarrow> bool" where
  "truthy JUndefined = False"
| "truthy JNull = False"
| "truthy (JBool b) = b"
| "truthy (JNum n) = (Rep_safe_int n \<noteq> 0)"
| "truthy (JStr s) = (s \<noteq> [])"
| "truthy (JArr xs) = True"
| "truthy (JObj kvs) = True"

text \<open>\<^verbatim>\<open>typeof v === 'object'\<close>.\<close>

fun typeof_object :: "js \<Rightarrow> bool" where
  "typeof_object JNull = True"
| "typeof_object (JArr xs) = True"
| "typeof_object (JObj kvs) = True"
| "typeof_object v = False"

text \<open>
  Property access \<^verbatim>\<open>v.k\<close>: a \<^verbatim>\<open>TypeError\<close> on \<^verbatim>\<open>null\<close> and \<^verbatim>\<open>undefined\<close>,
  the field of an object, and \<^verbatim>\<open>undefined\<close> for every other value (the keys read by
  the client are no built-in property of a primitive or an array).
\<close>

fun get_prop :: "js \<Rightarrow> string \<Rightarrow> js" where
  "get_prop (JObj kvs) k = (case map_of kvs k of Some v \<Rightarrow> v | None \<Rightarrow> JUndefined)"
| "get_prop v k = JUndefined"

definition member :: "js \<Rightarrow> string \<Rightarrow> error + js" where
  "member v k = (if v = JNull \<or> v = JUndefined then Inl TypeError else Inr (get_prop v k))"

text \<open>Decimal digits of a natural number, for a status code inside a template string.\<close>

fun dec :: "nat \<Rightarrow> string" where
  "dec n = (if n < 10 then [''0123456789'' ! n] else dec (n div 10) @ [''0123456789'' ! (n mod 10)])"

declare dec.simps [simp del]

fun join_comma :: "string list \<Rightarrow> string" where
  "join_comma [] = []"
| "join_comma [s] = s"
| "join_comma (s # t # ss) = s @ '','' @ join_comma (t # ss)"

text \<open>String coercion, as done by a template string, \<^verbatim>\<open>new Error(v)\<close> and \<^verbatim>\<open>setItem\<close>.\<close>

fun toStr :: "js \<Rightarrow> string" where
  "toStr JUndefined = ''undefined''"
| "toStr JNull = ''null''"
| "toStr (JBool b) = (if b then ''true'' else ''false'')"
| "toStr (JNum n) =
     (if Rep_safe_int n < 0 then ''-'' @ dec (nat (- Rep_safe_int n)) else dec (nat (Rep_safe_int n)))"
| "toStr (JStr s) = s"
| "toStr (JArr xs) =
     join_comma (map (\<lambda>x. if x = JNull \<or> x = JUndefined then [] else toStr x) xs)"
| "toStr (JObj kvs) = ''[object Object]''"

text \<open>\<^verbatim>\<open>s.includes(p)\<close>: \<open>p\<close> occurs in \<open>s\<close>.\<close>

fun str_includes :: "string \<Rightarrow> string \<Rightarrow> bool" where
  "str_includes [] p = (p = [])"
| "str_includes (c # cs) p = (take (length p) (c # cs) = p \<or> str_includes cs p)"

section \<open>Requests, responses and the client's state\<close>

text \<open>
  A request body is a JavaScript value, a \<^verbatim>\<open>FormData\<close> object, or another object that
  \<^verbatim>\<open>fetch\<close> takes as a body: a \<^verbatim>\<open>Blob\<close>, an \<^verbatim>\<open>ArrayBuffer\<close>, a
  \<^verbatim>\<open>URLSearchParams\<close> or a typed array of integers. For \<^verbatim>\<open>typeof\<close>, truthiness and
  \<^verbatim>\<open>JSON.stringify\<close> these are objects like any other; \<open>own_properties\<close> is what
  \<^verbatim>\<open>JSON.stringify\<close> sees of them: nothing, but for the elements of a typed array
  under their indices. \<^verbatim>\<open>options\<close> is the second argument of \<^verbatim>\<open>request\<close>; a missing
  field is \<open>None\<close>, the empty map and \<open>Val JUndefined\<close>.
\<close>

datatype binary =
    Blob string
  | ArrayBuffer string
  | URLSearchParams "(string \<times> string) list"
  | TypedArray "safe_int list"

datatype body = Val js | FormData "(string \<times> string) list" | Binary binary

fun own_properties :: "binary \<Rightarrow> js" where
  "own_properties (Blob b) = JObj []"
| "own_properties (ArrayBuffer b) = JObj []"
| "own_properties (URLSearchParams ps) = JObj []"
| "own_properties (TypedArray xs) = JObj (zip (map dec [0..<length xs]) (map JNum xs))"

record options =
  opt_method :: "string option"
  opt_headers :: "string \<rightharpoonup> string"
  opt_body :: body

text \<open>
  What \<^verbatim>\<open>fetch\<close> is called with. \<open>out_origin\<close> is not sent: it records which call
  made the request, the \<^verbatim>\<open>request\<close> of a caller or \<^verbatim>\<open>attemptTokenRefresh\<close>.
\<close>

datatype origin = RequestOf nat | RefreshOf nat

record outgoing =
  out_url :: string
  out_method :: "string option"
  out_headers :: "string \<rightharpoonup> string"
  out_body :: body
  out_origin :: origin

record response =
  status :: nat
  contentType :: "string option"
  body_text :: string

datatype fetch_result = NetworkFailure | Response response

definition ok :: "response \<Rightarrow> bool" where
  "ok r = (200 \<le> status r \<and> status r \<le> 299)"

text \<open>
  A subscriber of \<^verbatim>\<open>refreshSubscribers\<close> is the closure made at line 131: it holds the
  endpoint and options of the suspended call and the promise of its caller.
\<close>

datatype waiter = Waiter nat string options

text \<open>
  A call suspended at an \<^verbatim>\<open>await fetch\<close>: a \<^verbatim>\<open>request\<close> at line 108 with its
  \<^verbatim>\<open>retryOnUnauthorized\<close>, or a \<^verbatim>\<open>request\<close> at line 115 waiting for the fetch of
  \<^verbatim>\<open>attemptTokenRefresh\<close> (line 60). The number names the caller's promise.
\<close>

datatype task =
    AwaitFetch nat string options bool
  | AwaitRefresh nat string options

fun task_caller :: "task \<Rightarrow> nat" where
  "task_caller (AwaitFetch c ep opts retry) = c"
| "task_caller (AwaitRefresh c ep opts) = c"

fun waiter_caller :: "waiter \<Rightarrow> nat" where
  "waiter_caller (Waiter c ep opts) = c"

text \<open>
  The \<^verbatim>\<open>ApiClient\<close> instance with the browser around it. \<open>localStorage\<close> is \<open>None\<close>
  where \<^verbatim>\<open>window\<close> is undefined; \<open>location\<close> is the last value assigned to
  \<^verbatim>\<open>window.location.href\<close>; \<open>sent\<close> lists the calls of \<^verbatim>\<open>fetch\<close> in order;
  \<open>settled\<close> lists the promises already resolved or rejected; \<open>nextId\<close> numbers the
  calls of \<^verbatim>\<open>request\<close>.
\<close>

record world =
  token :: js
  refreshToken :: js
  isRefreshing :: bool
  refreshSubscribers :: "waiter list"
  localStorage :: "(string \<rightharpoonup> string) option"
  location :: "string option"
  sent :: "outgoing list"
  inflight :: "task list"
  settled :: "(nat \<times> (error + js)) list"
  nextId :: nat

text \<open>
  What the module takes from outside: \<^verbatim>\<open>API_URL\<close> of \<^verbatim>\<open>./apiConfig\<close> and the
  built-in \<^verbatim>\<open>JSON\<close> functions (\<open>None\<close> is the \<^verbatim>\<open>SyntaxError\<close> of \<^verbatim>\<open>JSON.parse\<close>).
\<close>

record env =
  API_URL :: string
  JSON_parse :: "string \<Rightarrow> js option"
  JSON_stringify :: "js \<Rightarrow> string"

section \<open>Token store\<close>

definition has_window :: "world \<Rightarrow> bool" where
  "has_window w = (localStorage w \<noteq> None)"

definition getItem :: "world \<Rightarrow> string \<Rightarrow> string option" where
  "getItem w k = (case localStorage w of None \<Rightarrow> None | Some m \<Rightarrow> m k)"

definition setItem :: "string \<Rightarrow> string \<Rightarrow> world \<Rightarrow> world" where
  "setItem k v w =
     (case localStorage w of None \<Rightarrow> w | Some m \<Rightarrow> w\<lparr>localStorage := Some (m(k \<mapsto> v))\<rparr>)"

definition removeItem :: "string \<Rightarrow> world \<Rightarrow> world" where
  "removeItem k w =
     (case localStorage w of None \<Rightarrow> w | Some m \<Rightarrow> w\<lparr>localStorage := Some (m(k := None))\<rparr>)"

text \<open>The constructor: both tokens are read from \<^verbatim>\<open>localStorage\<close> when there is a window.\<close>

definition stored :: "string option \<Rightarrow> js" where
  "stored v = (case v of None \<Rightarrow> JNull | Some s \<Rightarrow> JStr s)"

definition init :: "(string \<rightharpoonup> string) option \<Rightarrow> world" where
  "init ls =
     (let w = \<lparr>token = JNull, refreshToken = JNull, isRefreshing = False,
               refreshSubscribers = [], localStorage = ls, location = None,
               sent = [], inflight = [], settled = [], nextId = 0\<rparr>
      in if has_window w
         then w\<lparr>token := stored (getItem w ''accessToken''),
                refreshToken := stored (getItem w ''refreshToken'')\<rparr>
         else w)"

definition setToken :: "js \<Rightarrow> world \<Rightarrow> world" where
  "setToken tok w =
     (let w1 = w\<lparr>token := tok\<rparr>
      in if has_window w1 then setItem ''accessToken'' (toStr tok) w1 else w1)"

definition setRefreshToken :: "js \<Rightarrow> world \<Rightarrow> world" where
  "setRefreshToken tok w =
     (let w1 = w\<lparr>refreshToken := tok\<rparr>
      in if has_window w1 then setItem ''refreshToken'' (toStr tok) w1 else w1)"

definition clearToken :: "world \<Rightarrow> world" where
  "clearToken w =
     (let w1 = w\<lparr>token := JNull\<rparr>;
          w2 = w1\<lparr>refreshToken := JNull\<rparr>
      in if has_window w2
         then removeItem ''user'' (removeItem ''refreshToken'' (removeItem ''accessToken'' w2))
         else w2)"

section \<open>Sending a request\<close>

text \<open>
  Lines 82 to 108 of \<^verbatim>\<open>request\<close>, up to the call of \<^verbatim>\<open>fetch\<close>: the headers are the
  default content type overridden by the caller's headers, then the bearer token; a
  truthy body that is an object and no \<^verbatim>\<open>FormData\<close> is serialized (line 99), which
  takes in the other binary objects; for a \<^verbatim>\<open>FormData\<close> body the key
  \<^verbatim>\<open>Content-Type\<close>, in this spelling, is deleted (line 104).
\<close>

definition is_FormData :: "body \<Rightarrow> bool" where
  "is_FormData b = (case b of FormData f \<Rightarrow> True | Val v \<Rightarrow> False | Binary x \<Rightarrow> False)"

definition serialize_body :: "env \<Rightarrow> body \<Rightarrow> body" where
  "serialize_body e b =
     (case b of
        Val v \<Rightarrow> if truthy v \<and> typeof_object v then Val (JStr (JSON_stringify e v)) else Val v
      | FormData f \<Rightarrow> FormData f
      | Binary x \<Rightarrow> Val (JStr (JSON_stringify e (own_properties x))))"

definition build_config :: "env \<Rightarrow> world \<Rightarrow> nat \<Rightarrow> string \<Rightarrow> options \<Rightarrow> outgoing" where
  "build_config e w c endpoint opts =
     (let headers0 = [''Content-Type'' \<mapsto> ''application/json''] ++ opt_headers opts;
          headers1 = (if truthy (token w)
                      then headers0(''Authorization'' \<mapsto> ''Bearer '' @ toStr (token w))
                      else headers0);
          b = serialize_body e (opt_body opts);
          headers2 = (if is_FormData b then headers1(''Content-Type'' := None) else headers1)
      in \<lparr>out_url = API_URL e @ endpoint, out_method = opt_method opts,
          out_headers = headers2, out_body = b, out_origin = RequestOf c\<rparr>)"

definition request_send :: "env \<Rightarrow> nat \<Rightarrow> string \<Rightarrow> options \<Rightarrow> bool \<Rightarrow> world \<Rightarrow> world" where
  "request_send e c endpoint opts retry w =
     w\<lparr>sent := sent w @ [build_config e w c endpoint opts],
       inflight := inflight w @ [AwaitFetch c endpoint opts retry]\<rparr>"

section \<open>Reading a response\<close>

text \<open>
  Lines 143 to 157: the body is parsed when the content type says JSON or the text is not
  empty, an empty text of another content type is \<^verbatim>\<open>{}\<close>; a response that is not ok
  throws an \<^verbatim>\<open>Error\<close> whose message is \<^verbatim>\<open>data.detail\<close>, else \<^verbatim>\<open>data.message\<close>, else
  the text with the status code.
\<close>

definition is_json :: "response \<Rightarrow> bool" where
  "is_json r =
     (case contentType r of None \<Rightarrow> False | Some ct \<Rightarrow> ct \<noteq> [] \<and> str_includes ct ''application/json'')"

definition read_data :: "env \<Rightarrow> response \<Rightarrow> js option" where
  "read_data e r =
     (if is_json r then JSON_parse e (body_text r)
      else if body_text r \<noteq> [] then JSON_parse e (body_text r) else Some (JObj []))"

definition error_message :: "response \<Rightarrow> js \<Rightarrow> error" where
  "error_message r d =
     (case member d ''detail'' of
        Inl x \<Rightarrow> x
      | Inr detail \<Rightarrow>
          if truthy detail then Error (toStr detail)
          else (case member d ''message'' of
                  Inl x \<Rightarrow> x
                | Inr msg \<Rightarrow>
                    if truthy msg then Error (toStr msg)
                    else Error (''API request failed: '' @ dec (status r))))"

definition read_response :: "env \<Rightarrow> response \<Rightarrow> error + js" where
  "read_response e r =
     (case read_data e r of
        None \<Rightarrow> Inl SyntaxError
      | Some d \<Rightarrow> if \<not> ok r then Inl (error_message r d) else Inr d)"

section \<open>Refreshing the access token\<close>

text \<open>
  \<^verbatim>\<open>attemptTokenRefresh\<close>, lines 54 to 80, cut at its \<^verbatim>\<open>await fetch\<close>: the first part
  throws without a refresh token and otherwise posts it to \<^verbatim>\<open>/auth/refresh\<close>; the second
  part stores and returns \<^verbatim>\<open>data.access_token\<close>, and on any failure clears the session
  and rethrows.
\<close>

definition refresh_request :: "env \<Rightarrow> world \<Rightarrow> nat \<Rightarrow> outgoing" where
  "refresh_request e w c =
     \<lparr>out_url = API_URL e @ ''/auth/refresh'', out_method = Some ''POST'',
      out_headers = [''Content-Type'' \<mapsto> ''application/json''],
      out_body = Val (JStr (JSON_stringify e (JObj [(''refresh_token'', refreshToken w)]))),
      out_origin = RefreshOf c\<rparr>"

definition attemptTokenRefresh_send :: "env \<Rightarrow> nat \<Rightarrow> world \<Rightarrow> error + world" where
  "attemptTokenRefresh_send e c w =
     (if \<not> truthy (refreshToken w) then Inl (Error ''No refresh token available'')
      else Inr (w\<lparr>sent := sent w @ [refresh_request e w c]\<rparr>))"

definition attemptTokenRefresh_receive ::
  "env \<Rightarrow> fetch_result \<Rightarrow> world \<Rightarrow> (error + js) \<times> world" where
  "attemptTokenRefresh_receive e fr w =
     (case fr of
        NetworkFailure \<Rightarrow> (Inl TypeError, clearToken w)
      | Response r \<Rightarrow>
          if \<not> ok r then (Inl (Error ''Token refresh failed''), clearToken w)
          else (case JSON_parse e (body_text r) of
                  None \<Rightarrow> (Inl SyntaxError, clearToken w)
                | Some d \<Rightarrow>
                    (case member d ''access_token'' of
                       Inl x \<Rightarrow> (Inl x, clearToken w)
                     | Inr tok \<Rightarrow> (Inr tok, setToken tok w))))"

section \<open>Receiving the response of a request\<close>

definition settle :: "nat \<Rightarrow> error + js \<Rightarrow> world \<Rightarrow> world" where
  "settle c res w = w\<lparr>settled := settled w @ [(c, res)]\<rparr>"

definition subscribeTokenRefresh :: "waiter \<Rightarrow> world \<Rightarrow> world" where
  "subscribeTokenRefresh cb w = w\<lparr>refreshSubscribers := refreshSubscribers w @ [cb]\<rparr>"

text \<open>
  The subscriber made at line 131 calls \<^verbatim>\<open>request\<close> again with
  \<^verbatim>\<open>retryOnUnauthorized = false\<close> and hands the outcome to the promise of its caller; it
  does not use the token it is called with.
\<close>

fun subscriber :: "env \<Rightarrow> js \<Rightarrow> world \<Rightarrow> waiter \<Rightarrow> world" where
  "subscriber e newToken w (Waiter c endpoint opts) = request_send e c endpoint opts False w"

definition onTokenRefreshed :: "env \<Rightarrow> js \<Rightarrow> world \<Rightarrow> world" where
  "onTokenRefreshed e newToken w =
     (foldl (subscriber e newToken) w (refreshSubscribers w))\<lparr>refreshSubscribers := []\<rparr>"

text \<open>The \<^verbatim>\<open>catch (refreshError)\<close> of lines 120 to 127.\<close>

definition refresh_failed :: "nat \<Rightarrow> error \<Rightarrow> world \<Rightarrow> world" where
  "refresh_failed c x w =
     (let w1 = w\<lparr>isRefreshing := False\<rparr>;
          w2 = (if has_window w1 then w1\<lparr>location := Some ''/login''\<rparr> else w1)
      in settle c (Inl x) w2)"

text \<open>
  \<^verbatim>\<open>request\<close> from line 108 on, when its fetch has settled: a 401 with
  \<^verbatim>\<open>retryOnUnauthorized\<close> and a refresh token starts a refresh or subscribes to the
  one in flight; every other response is read and handed to the caller.
\<close>

definition request_receive ::
  "env \<Rightarrow> nat \<Rightarrow> string \<Rightarrow> options \<Rightarrow> bool \<Rightarrow> fetch_result \<Rightarrow> world \<Rightarrow> world" where
  "request_receive e c endpoint opts retry fr w =
     (case fr of
        NetworkFailure \<Rightarrow> settle c (Inl TypeError) w
      | Response r \<Rightarrow>
          if status r = 401 \<and> retry \<and> truthy (refreshToken w) then
            if \<not> isRefreshing w then
              (let w1 = w\<lparr>isRefreshing := True\<rparr>
               in case attemptTokenRefresh_send e c w1 of
                    Inl x \<Rightarrow> refresh_failed c x w1
                  | Inr w2 \<Rightarrow> w2\<lparr>inflight := inflight w2 @ [AwaitRefresh c endpoint opts]\<rparr>)
            else subscribeTokenRefresh (Waiter c endpoint opts) w
          else settle c (read_response e r) w)"

text \<open>
  \<^verbatim>\<open>request\<close> from line 115 on, when the fetch of \<^verbatim>\<open>attemptTokenRefresh\<close> has settled.
\<close>

definition refresh_receive ::
  "env \<Rightarrow> nat \<Rightarrow> string \<Rightarrow> options \<Rightarrow> fetch_result \<Rightarrow> world \<Rightarrow> world" where
  "refresh_receive e c endpoint opts fr w =
     (case attemptTokenRefresh_receive e fr w of
        (Inr newToken, w1) \<Rightarrow>
          request_send e c endpoint opts False
            (onTokenRefreshed e newToken (w1\<lparr>isRefreshing := False\<rparr>))
      | (Inl x, w1) \<Rightarrow> refresh_failed c x w1)"

section \<open>Interleavings of calls\<close>

text \<open>
  JavaScript runs each piece of code between two \<^verbatim>\<open>await\<close>s to completion. An
  interleaving of calls of \<^verbatim>\<open>request\<close> is therefore a list of events: a caller calls
  \<^verbatim>\<open>request(endpoint, options)\<close>, or the fetch a suspended call waits for settles.
  Every caller leaves \<^verbatim>\<open>retryOnUnauthorized\<close> at its default, as all the methods of
  the class do. A call is cut at its \<^verbatim>\<open>await fetch\<close> only: between the later awaits
  (the body of a response being read, \<^verbatim>\<open>attemptTokenRefresh\<close> returning into
  \<^verbatim>\<open>request\<close>) the client's fields are not written, and what another call reads in
  between is what it reads before, so these pieces are run as one with the piece that
  follows them. \<open>Resolve c\<close> settles the fetch of the suspended call of caller \<open>c\<close>;
  it does nothing when that caller has no call suspended.
\<close>

datatype event = Call string options | Resolve nat fetch_result

fun take_task :: "nat \<Rightarrow> task list \<Rightarrow> (task \<times> task list) option" where
  "take_task c [] = None"
| "take_task c (t # ts) =
     (if task_caller t = c then Some (t, ts)
      else (case take_task c ts of None \<Rightarrow> None | Some (t', ts') \<Rightarrow> Some (t', t # ts')))"

fun resume :: "env \<Rightarrow> task \<Rightarrow> fetch_result \<Rightarrow> world \<Rightarrow> world" where
  "resume e (AwaitFetch c endpoint opts retry) fr w = request_receive e c endpoint opts retry fr w"
| "resume e (AwaitRefresh c endpoint opts) fr w = refresh_receive e c endpoint opts fr w"

fun step :: "env \<Rightarrow> world \<Rightarrow> event \<Rightarrow> world" where
  "step e w (Call endpoint opts) =
     request_send e (nextId w) endpoint opts True (w\<lparr>nextId := Suc (nextId w)\<rparr>)"
| "step e w (Resolve c fr) =
     (case take_task c (inflight w) of
        None \<Rightarrow> w
      | Some (t, ts) \<Rightarrow> resume e t fr (w\<lparr>inflight := ts\<rparr>))"

definition run :: "env \<Rightarrow> world \<Rightarrow> event list \<Rightarrow> world" where
  "run e w evs = foldl (step e) w evs"

text \<open>How often a caller's request went out, and how often the refresh endpoint was called.\<close>

definition sends :: "world \<Rightarrow> nat \<Rightarrow> nat" where
  "sends w c = length (filter (\<lambda>out. out_origin out = RequestOf c) (sent w))"

fun is_refresh_call :: "outgoing \<Rightarrow> bool" where
  "is_refresh_call out = (case out_origin out of RefreshOf c \<Rightarrow> True | RequestOf c \<Rightarrow> False)"

definition refresh_calls :: "world \<Rightarrow> nat" where
  "refresh_calls w = length (filter is_refresh_call (sent w))"

section \<open>Login\<close>

text \<open>
  \<^verbatim>\<open>login\<close> from line 178 on, when its fetch has settled. \<^verbatim>\<open>JSON.stringify\<close> of
  \<^verbatim>\<open>undefined\<close> is \<^verbatim>\<open>undefined\<close>, which \<^verbatim>\<open>setItem\<close> stores as a string.
\<close>

definition stringify_item :: "env \<Rightarrow> js \<Rightarrow> string" where
  "stringify_item e v = (if v = JUndefined then ''undefined'' else JSON_stringify e v)"

definition login_receive :: "env \<Rightarrow> fetch_result \<Rightarrow> world \<Rightarrow> (error + js) \<times> world" where
  "login_receive e fr w =
     (case fr of
        NetworkFailure \<Rightarrow> (Inl TypeError, w)
      | Response r \<Rightarrow>
          (case JSON_parse e (body_text r) of
             None \<Rightarrow> (Inl SyntaxError, w)
           | Some d \<Rightarrow>
               if \<not> ok r then
                 (case member d ''detail'' of
                    Inl x \<Rightarrow> (Inl x, w)
                  | Inr detail \<Rightarrow>
                      (Inl (Error (if truthy detail then toStr detail else ''Login failed'')), w))
               else
                 (case member d ''access_token'' of
                    Inl x \<Rightarrow> (Inl x, w)
                  | Inr tok \<Rightarrow>
                      (let w1 = setToken tok w;
                           rt = get_prop d ''refresh_token'';
                           w2 = (if truthy rt then setRefreshToken rt w1 else w1);
                           w3 = (if has_window w2
                                 then setItem ''user'' (stringify_item e (get_prop d ''user'')) w2
                                 else w2)
                       in (Inr d, w3)))))"

section \<open>Notions used to state the properties\<close>

text \<open>
  A suspended call is a first attempt when a 401 may still make it refresh or wait: a
  \<^verbatim>\<open>request\<close> with \<^verbatim>\<open>retryOnUnauthorized\<close>, or the call that runs the refresh.
\<close>

fun first_attempt :: "task \<Rightarrow> bool" where
  "first_attempt (AwaitFetch c ep opts retry) = retry"
| "first_attempt (AwaitRefresh c ep opts) = True"

fun is_refresh_task :: "task \<Rightarrow> bool" where
  "is_refresh_task (AwaitFetch c ep opts retry) = False"
| "is_refresh_task (AwaitRefresh c ep opts) = True"

text \<open>The request a subscriber sends when it is called, and the call it leaves suspended.\<close>

fun resend_of :: "env \<Rightarrow> world \<Rightarrow> waiter \<Rightarrow> outgoing" where
  "resend_of e w (Waiter c ep opts) = build_config e w c ep opts"

fun retry_task :: "waiter \<Rightarrow> task" where
  "retry_task (Waiter c ep opts) = AwaitFetch c ep opts False"

text \<open>The callers whose promise is still open, and all callers so far.\<close>

definition pending :: "world \<Rightarrow> nat list" where
  "pending w = map task_caller (inflight w) @ map waiter_caller (refreshSubscribers w)"

definition callers :: "world \<Rightarrow> nat list" where
  "callers w = map fst (settled w) @ pending w"



text \<open>The three entries a session keeps in \<^verbatim>\<open>localStorage\<close>.\<close>

definition session_keys :: "string list" where
  "session_keys = [''accessToken'', ''refreshToken'', ''user'']"

text \<open>
  Invariants of every interleaving: the flag \<^verbatim>\<open>isRefreshing\<close> is set exactly while one
  call waits for the refresh endpoint, and then there is a refresh token; every caller is
  in one place only (settled, suspended or subscribed); a request has gone out once for
  a first attempt and twice for a retry, and never more than twice.
\<close>

definition inv_refresh :: "world \<Rightarrow> bool" where
  "inv_refresh w \<longleftrightarrow>
     length (filter is_refresh_task (inflight w)) = (if isRefreshing w then 1 else 0) \<and>
     (isRefreshing w \<longrightarrow> truthy (refreshToken w))"

definition inv_callers :: "world \<Rightarrow> bool" where
  "inv_callers w \<longleftrightarrow> distinct (callers w) \<and> (\<forall>c\<in>set (callers w). c < nextId w)"

definition inv_sends :: "world \<Rightarrow> bool" where
  "inv_sends w \<longleftrightarrow>
     (\<forall>c. sends w c \<le> 2) \<and>
     (\<forall>t\<in>set (inflight w). sends w (task_caller t) = (if first_attempt t then 1 else 2)) \<and>
     (\<forall>wt\<in>set (refreshSubscribers w). sends w (waiter_caller wt) = 1) \<and>
     (\<forall>c. nextId w \<le> c \<longrightarrow> sends w c = 0)"

definition inv :: "world \<Rightarrow> bool" where
  "inv w \<longleftrightarrow> inv_refresh w \<and> inv_callers w \<and> inv_sends w"

section \<open>Concrete inputs\<close>

text \<open>
  A small \<^verbatim>\<open>JSON.stringify\<close> (for strings that need no escape) and a \<^verbatim>\<open>JSON.parse\<close>
  that knows the bodies used below; every other text is a \<^verbatim>\<open>SyntaxError\<close>.
\<close>

definition dq :: string where
  "dq = [CHR 0x22]"

fun plain_stringify :: "js \<Rightarrow> string" where
  "plain_stringify JUndefined = ''null''"
| "plain_stringify JNull = ''null''"
| "plain_stringify (JBool b) = (if b then ''true'' else ''false'')"
| "plain_stringify (JNum n) = toStr (JNum n)"
| "plain_stringify (JStr s) = dq @ s @ dq"
| "plain_stringify (JArr xs) = ''['' @ join_comma (map plain_stringify xs) @ '']''"
| "plain_stringify (JObj kvs) =
     ''{'' @ join_comma (map (\<lambda>kv. dq @ fst kv @ dq @ '':'' @ plain_stringify (snd kv))
                          (filter (\<lambda>kv. snd kv \<noteq> JUndefined) kvs)) @ ''}''"

definition one_field :: "string \<Rightarrow> string \<Rightarrow> js" where
  "one_field k v = JObj [(k, JStr v)]"

definition login_data :: js where
  "login_data =
     JObj [(''access_token'', JStr ''A2''), (''user'', one_field ''email'' ''ann@example.org'')]"

definition demo_parse :: "string \<Rightarrow> js option" where
  "demo_parse t =
     (if t = plain_stringify (one_field ''access_token'' ''A2'')
        then Some (one_field ''access_token'' ''A2'')
      else if t = plain_stringify login_data then Some login_data
      else if t = plain_stringify (one_field ''detail'' ''Not found'')
        then Some (one_field ''detail'' ''Not found'')
      else if t = plain_stringify (one_field ''detail'' ''Token expired'')
        then Some (one_field ''detail'' ''Token expired'')
      else if t = ''{}'' then Some (JObj [])
      else if t = ''[]'' then Some (JArr [])
      else None)"

definition demo_env :: env where
  "demo_env = \<lparr>API_URL = ''/api/v1'', JSON_parse = demo_parse, JSON_stringify = plain_stringify\<rparr>"

text \<open>A browser whose \<^verbatim>\<open>localStorage\<close> holds a session.\<close>

definition demo_storage :: "(string \<rightharpoonup> string) option" where
  "demo_storage =
     Some [''accessToken'' \<mapsto> ''A1'', ''refreshToken'' \<mapsto> ''R1'', ''user'' \<mapsto> ''{}'']"

text \<open>\<^verbatim>\<open>request(endpoint)\<close> with no options, and the responses of the server.\<close>

definition no_options :: options where
  "no_options = \<lparr>opt_method = None, opt_headers = Map.empty, opt_body = Val JUndefined\<rparr>"

definition expired :: response where
  "expired = \<lparr>status = 401, contentType = Some ''application/json'',
               body_text = plain_stringify (one_field ''detail'' ''Token expired'')\<rparr>"

definition refreshed :: response where
  "refreshed = \<lparr>status = 200, contentType = Some ''application/json'',
                 body_text = plain_stringify (one_field ''access_token'' ''A2'')\<rparr>"

definition logged_in :: response where
  "logged_in = \<lparr>status = 200, contentType = Some ''application/json'',
                 body_text = plain_stringify login_data\<rparr>"

definition empty_reply :: response where
  "empty_reply = \<lparr>status = 204, contentType = None, body_text = []\<rparr>"

definition not_found :: "nat \<Rightarrow> response" where
  "not_found code = \<lparr>status = code, contentType = Some ''application/json'',
                       body_text = plain_stringify (one_field ''detail'' ''Not found'')\<rparr>"





text \<open>A page of HTML, as a proxy answers with, under any status.\<close>

definition html_page :: "nat \<Rightarrow> response" where
  "html_page code = \<lparr>status = code, contentType = Some ''text/html'', body_text = ''<html>''\<rparr>"

text \<open>One call that got a 401 and now waits for the refresh endpoint.\<close>

definition refreshing_world :: world where
  "refreshing_world =
     run demo_env (init demo_storage) [Call ''/assets/'' no_options, Resolve 0 (Response expired)]"

text \<open>
  Interleavings used below. Two or three callers call \<^verbatim>\<open>request\<close> with an expired
  access token; the responses arrive in the order listed.
\<close>

definition two_calls :: "event list" where
  "two_calls = [Call ''/assets/'' no_options, Call ''/tickets/'' no_options]"

definition three_calls :: "event list" where
  "three_calls =
     [Call ''/assets/'' no_options, Call ''/tickets/'' no_options, Call ''/auth/me'' no_options]"

text \<open>The first 401 has arrived and started the refresh; the second call is still out.\<close>

definition refresh_started :: "event list" where
  "refresh_started = two_calls @ [Resolve 0 (Response expired)]"

text \<open>The second 401 arrives after the refresh has succeeded.\<close>

definition late_401 :: "event list" where
  "late_401 = two_calls @
     [Resolve 0 (Response expired), Resolve 0 (Response refreshed), Resolve 1 (Response expired)]"

text \<open>Both 401s arrive, then the refresh endpoint answers 401.\<close>

definition failed_refresh :: "event list" where
  "failed_refresh = two_calls @
     [Resolve 0 (Response expired), Resolve 1 (Response expired), Resolve 0 (Response expired)]"

text \<open>Both 401s have arrived and the refresh is in flight.\<close>

definition both_waiting :: "event list" where
  "both_waiting = two_calls @ [Resolve 0 (Response expired), Resolve 1 (Response expired)]"

text \<open>One call is resent after a successful refresh.\<close>

definition retried_once :: "event list" where
  "retried_once =
     [Call ''/assets/'' no_options, Resolve 0 (Response expired), Resolve 0 (Response refreshed)]"

text \<open>Three 401s arrive, then the fetch of the refresh fails.\<close>

definition lost_waiters :: "event list" where
  "lost_waiters = three_calls @
     [Resolve 0 (Response expired), Resolve 1 (Response expired), Resolve 2 (Response expired),
      Resolve 0 NetworkFailure]"

section \<open>What one event does\<close>

lemma build_config_update [simp]:
  "build_config e (w\<lparr>isRefreshing := b\<rparr>) = build_config e w"
  "build_config e (w\<lparr>refreshSubscribers := ws\<rparr>) = build_config e w"
  "build_config e (w\<lparr>localStorage := ls\<rparr>) = build_config e w"
  "build_config e (w\<lparr>location := l\<rparr>) = build_config e w"
  "build_config e (w\<lparr>sent := s\<rparr>) = build_config e w"
  "build_config e (w\<lparr>inflight := ts\<rparr>) = build_config e w"
  "build_config e (w\<lparr>settled := st\<rparr>) = build_config e w"
  "build_config e (w\<lparr>nextId := n\<rparr>) = build_config e w"
  by (simp_all add: build_config_def fun_eq_iff cong: if_cong)

lemma resend_of_cong:
  assumes "build_config e w' = build_config e w"
  shows "resend_of e w' = resend_of e w"
proof
  fix x show "resend_of e w' x = resend_of e w x"
    by (cases x) (simp add: assms)
qed

lemma resend_of_update [simp]:
  "resend_of e (w\<lparr>isRefreshing := b\<rparr>) = resend_of e w"
  "resend_of e (w\<lparr>refreshSubscribers := ws\<rparr>) = resend_of e w"
  "resend_of e (w\<lparr>localStorage := ls\<rparr>) = resend_of e w"
  "resend_of e (w\<lparr>location := l\<rparr>) = resend_of e w"
  "resend_of e (w\<lparr>sent := s\<rparr>) = resend_of e w"
  "resend_of e (w\<lparr>inflight := ts\<rparr>) = resend_of e w"
  "resend_of e (w\<lparr>settled := st\<rparr>) = resend_of e w"
  "resend_of e (w\<lparr>nextId := n\<rparr>) = resend_of e w"
  by (rule resend_of_cong, simp)+

lemma foldl_subscriber:
  "foldl (subscriber e tok) w ws =
     w\<lparr>sent := sent w @ map (resend_of e w) ws, inflight := inflight w @ map retry_task ws\<rparr>"
proof (induction ws arbitrary: w)
  case Nil
  show ?case by simp
next
  case (Cons a ws)
  obtain c ep opts where a: "a = Waiter c ep opts" by (cases a)
  show ?case
    by (simp add: Cons.IH a request_send_def)
qed

lemma onTokenRefreshed_eq:
  "onTokenRefreshed e tok w =
     w\<lparr>sent := sent w @ map (resend_of e w) (refreshSubscribers w),
       inflight := inflight w @ map retry_task (refreshSubscribers w),
       refreshSubscribers := []\<rparr>"
  by (simp add: onTokenRefreshed_def foldl_subscriber)

lemma take_task_Some:
  "take_task c l = Some (t, ts) \<Longrightarrow>
     task_caller t = c \<and> (\<exists>xs ys. l = xs @ t # ys \<and> ts = xs @ ys)"
proof (induction l arbitrary: t ts)
  case Nil
  then show ?case by simp
next
  case (Cons a l)
  show ?case
  proof (cases "task_caller a = c")
    case True
    with Cons.prems have "t = a" "ts = l" by auto
    with True show ?thesis by (intro conjI exI [of _ "[]"] exI [of _ l]) auto
  next
    case False
    with Cons.prems obtain ts' where tt: "take_task c l = Some (t, ts')" and ts: "ts = a # ts'"
      by (auto split: option.splits)
    from Cons.IH [OF tt] obtain xs ys where c: "task_caller t = c" and l: "l = xs @ t # ys" and t': "ts' = xs @ ys"
      by blast
    show ?thesis using c l t' ts by (intro conjI exI [of _ "a # xs"] exI [of _ ys]) auto
  qed
qed

lemma take_task_None: "take_task c l = None \<Longrightarrow> c \<notin> task_caller ` set l"
  by (induction l) (auto split: if_splits option.splits)


lemma setItem_eq:
  "setItem k v w = w\<lparr>localStorage := map_option (\<lambda>m. m(k \<mapsto> v)) (localStorage w)\<rparr>"
  by (simp add: setItem_def split: option.splits)

lemma removeItem_eq:
  "removeItem k w = w\<lparr>localStorage := map_option (\<lambda>m. m(k := None)) (localStorage w)\<rparr>"
  by (simp add: removeItem_def split: option.splits)

lemma setToken_eq:
  "setToken tok w =
     w\<lparr>token := tok,
       localStorage := map_option (\<lambda>m. m(''accessToken'' \<mapsto> toStr tok)) (localStorage w)\<rparr>"
  by (simp add: setToken_def setItem_eq has_window_def Let_def)

lemma setRefreshToken_eq:
  "setRefreshToken tok w =
     w\<lparr>refreshToken := tok,
       localStorage := map_option (\<lambda>m. m(''refreshToken'' \<mapsto> toStr tok)) (localStorage w)\<rparr>"
  by (simp add: setRefreshToken_def setItem_eq has_window_def Let_def)

lemma clearToken_eq:
  "clearToken w =
     w\<lparr>token := JNull, refreshToken := JNull,
       localStorage :=
         map_option (\<lambda>m. m(''accessToken'' := None, ''refreshToken'' := None, ''user'' := None))
           (localStorage w)\<rparr>"
  by (simp add: clearToken_def removeItem_eq has_window_def Let_def option.map_comp comp_def)

lemma setToken_sel [simp]:
  "token (setToken tok w) = tok"
  "refreshToken (setToken tok w) = refreshToken w"
  "isRefreshing (setToken tok w) = isRefreshing w"
  "refreshSubscribers (setToken tok w) = refreshSubscribers w"
  "location (setToken tok w) = location w"
  "sent (setToken tok w) = sent w"
  "inflight (setToken tok w) = inflight w"
  "settled (setToken tok w) = settled w"
  "nextId (setToken tok w) = nextId w"
  by (simp_all add: setToken_eq)

lemma clearToken_sel [simp]:
  "token (clearToken w) = JNull"
  "refreshToken (clearToken w) = JNull"
  "isRefreshing (clearToken w) = isRefreshing w"
  "refreshSubscribers (clearToken w) = refreshSubscribers w"
  "location (clearToken w) = location w"
  "sent (clearToken w) = sent w"
  "inflight (clearToken w) = inflight w"
  "settled (clearToken w) = settled w"
  "nextId (clearToken w) = nextId w"
  by (simp_all add: clearToken_eq)

lemma attempt_receive_cases:
  "(\<exists>x. attemptTokenRefresh_receive e fr w = (Inl x, clearToken w)) \<or>
   (\<exists>tok. attemptTokenRefresh_receive e fr w = (Inr tok, setToken tok w))"
  by (simp add: attemptTokenRefresh_receive_def split: fetch_result.splits option.splits sum.splits)

lemma refresh_receive_cases:
  "(\<exists>x. refresh_receive e c ep opts fr w =
      (clearToken w)\<lparr>isRefreshing := False,
        location := (if has_window w then Some ''/login'' else location w),
        settled := settled w @ [(c, Inl x)]\<rparr>) \<or>
   (\<exists>tok. refresh_receive e c ep opts fr w =
      (setToken tok w)\<lparr>isRefreshing := False, refreshSubscribers := [],
        sent := sent w @ map (resend_of e (setToken tok w)) (refreshSubscribers w @ [Waiter c ep opts]),
        inflight := inflight w @ map retry_task (refreshSubscribers w @ [Waiter c ep opts])\<rparr>)"
proof -
  from attempt_receive_cases [of e fr w] show ?thesis
  proof (elim disjE exE)
    fix x assume "attemptTokenRefresh_receive e fr w = (Inl x, clearToken w)"
    then have "refresh_receive e c ep opts fr w =
      (clearToken w)\<lparr>isRefreshing := False,
        location := (if has_window w then Some ''/login'' else location w),
        settled := settled w @ [(c, Inl x)]\<rparr>"
      by (simp add: refresh_receive_def refresh_failed_def settle_def Let_def has_window_def clearToken_eq)
    then show ?thesis by blast
  next
    fix tok assume "attemptTokenRefresh_receive e fr w = (Inr tok, setToken tok w)"
    then have "refresh_receive e c ep opts fr w =
      (setToken tok w)\<lparr>isRefreshing := False, refreshSubscribers := [],
        sent := sent w @ map (resend_of e (setToken tok w)) (refreshSubscribers w @ [Waiter c ep opts]),
        inflight := inflight w @ map retry_task (refreshSubscribers w @ [Waiter c ep opts])\<rparr>"
      by (simp add: refresh_receive_def request_send_def onTokenRefreshed_eq)
    then show ?thesis by blast
  qed
qed


lemma refresh_request_update [simp]:
  "refresh_request e (w\<lparr>isRefreshing := b\<rparr>) = refresh_request e w"
  "refresh_request e (w\<lparr>inflight := ts\<rparr>) = refresh_request e w"
  by (simp_all add: refresh_request_def fun_eq_iff)

lemma request_receive_cases:
  "(\<exists>res. request_receive e c ep opts retry fr w = w\<lparr>settled := settled w @ [(c, res)]\<rparr>) \<or>
   (retry \<and> \<not> isRefreshing w \<and> truthy (refreshToken w) \<and>
      request_receive e c ep opts retry fr w =
        w\<lparr>isRefreshing := True, sent := sent w @ [refresh_request e w c],
          inflight := inflight w @ [AwaitRefresh c ep opts]\<rparr>) \<or>
   (retry \<and> isRefreshing w \<and> truthy (refreshToken w) \<and>
      request_receive e c ep opts retry fr w =
        w\<lparr>refreshSubscribers := refreshSubscribers w @ [Waiter c ep opts]\<rparr>)"
  by (cases fr)
     (auto simp: request_receive_def settle_def attemptTokenRefresh_send_def
        subscribeTokenRefresh_def Let_def)

text \<open>What one event does, case by case.\<close>

lemma step_Resolve_cases [case_names Idle Settle Start Enqueue Fail Success]:
  obtains
    (Idle) "take_task c (inflight w) = None" "step e w (Resolve c fr) = w"
  | (Settle) ep opts retry ts res where
      "take_task c (inflight w) = Some (AwaitFetch c ep opts retry, ts)"
      "step e w (Resolve c fr) = w\<lparr>inflight := ts, settled := settled w @ [(c, res)]\<rparr>"
  | (Start) ep opts ts where
      "take_task c (inflight w) = Some (AwaitFetch c ep opts True, ts)"
      "\<not> isRefreshing w" "truthy (refreshToken w)"
      "step e w (Resolve c fr) =
         w\<lparr>isRefreshing := True, sent := sent w @ [refresh_request e w c],
           inflight := ts @ [AwaitRefresh c ep opts]\<rparr>"
  | (Enqueue) ep opts ts where
      "take_task c (inflight w) = Some (AwaitFetch c ep opts True, ts)"
      "isRefreshing w" "truthy (refreshToken w)"
      "step e w (Resolve c fr) =
         w\<lparr>inflight := ts, refreshSubscribers := refreshSubscribers w @ [Waiter c ep opts]\<rparr>"
  | (Fail) ep opts ts x where
      "take_task c (inflight w) = Some (AwaitRefresh c ep opts, ts)"
      "step e w (Resolve c fr) =
         (clearToken w)\<lparr>isRefreshing := False,
           location := (if has_window w then Some ''/login'' else location w),
           inflight := ts, settled := settled w @ [(c, Inl x)]\<rparr>"
  | (Success) ep opts ts tok where
      "take_task c (inflight w) = Some (AwaitRefresh c ep opts, ts)"
      "step e w (Resolve c fr) =
         (setToken tok w)\<lparr>isRefreshing := False, refreshSubscribers := [],
           sent := sent w @ map (resend_of e (setToken tok w)) (refreshSubscribers w @ [Waiter c ep opts]),
           inflight := ts @ map retry_task (refreshSubscribers w @ [Waiter c ep opts])\<rparr>"
proof (cases "take_task c (inflight w)")
  case None
  then show ?thesis using Idle by simp
next
  case (Some p)
  obtain t ts where p: "p = (t, ts)" by (cases p)
  from take_task_Some [of c "inflight w" t ts] Some p have tc: "task_caller t = c" by simp
  show ?thesis
  proof (cases t)
    case (AwaitFetch c' ep opts retry)
    with tc have c': "c' = c" by simp
    have st: "step e w (Resolve c fr) = request_receive e c ep opts retry fr (w\<lparr>inflight := ts\<rparr>)"
      using Some p AwaitFetch c' by simp
    from request_receive_cases [of e c ep opts retry fr "w\<lparr>inflight := ts\<rparr>"]
    show ?thesis
    proof (elim disjE exE conjE)
      fix res assume "request_receive e c ep opts retry fr (w\<lparr>inflight := ts\<rparr>) =
        w\<lparr>inflight := ts\<rparr>\<lparr>settled := settled (w\<lparr>inflight := ts\<rparr>) @ [(c, res)]\<rparr>"
      then show ?thesis using Settle [of ep opts retry ts res] Some p AwaitFetch c' st by simp
    next
      assume "retry" "\<not> isRefreshing (w\<lparr>inflight := ts\<rparr>)" "truthy (refreshToken (w\<lparr>inflight := ts\<rparr>))"
        "request_receive e c ep opts retry fr (w\<lparr>inflight := ts\<rparr>) =
          w\<lparr>inflight := ts\<rparr>\<lparr>isRefreshing := True,
            sent := sent (w\<lparr>inflight := ts\<rparr>) @ [refresh_request e (w\<lparr>inflight := ts\<rparr>) c],
            inflight := inflight (w\<lparr>inflight := ts\<rparr>) @ [AwaitRefresh c ep opts]\<rparr>"
      then show ?thesis using Start [of ep opts ts] Some p AwaitFetch c' st by simp
    next
      assume "retry" "isRefreshing (w\<lparr>inflight := ts\<rparr>)" "truthy (refreshToken (w\<lparr>inflight := ts\<rparr>))"
        "request_receive e c ep opts retry fr (w\<lparr>inflight := ts\<rparr>) =
          w\<lparr>inflight := ts\<rparr>\<lparr>refreshSubscribers :=
            refreshSubscribers (w\<lparr>inflight := ts\<rparr>) @ [Waiter c ep opts]\<rparr>"
      then show ?thesis using Enqueue [of ep opts ts] Some p AwaitFetch c' st by simp
    qed
  next
    case (AwaitRefresh c' ep opts)
    with tc have c': "c' = c" by simp
    have st: "step e w (Resolve c fr) = refresh_receive e c ep opts fr (w\<lparr>inflight := ts\<rparr>)"
      using Some p AwaitRefresh c' by simp
    have cl: "clearToken (w\<lparr>inflight := ts\<rparr>) = (clearToken w)\<lparr>inflight := ts\<rparr>"
      by (simp add: clearToken_eq)
    have se: "\<And>tok. setToken tok (w\<lparr>inflight := ts\<rparr>) = (setToken tok w)\<lparr>inflight := ts\<rparr>"
      by (simp add: setToken_eq)
    from refresh_receive_cases [of e c ep opts fr "w\<lparr>inflight := ts\<rparr>"]
    show ?thesis
    proof (elim disjE exE)
      fix x assume "refresh_receive e c ep opts fr (w\<lparr>inflight := ts\<rparr>) =
        (clearToken (w\<lparr>inflight := ts\<rparr>))\<lparr>isRefreshing := False,
          location := (if has_window (w\<lparr>inflight := ts\<rparr>) then Some ''/login''
                       else location (w\<lparr>inflight := ts\<rparr>)),
          settled := settled (w\<lparr>inflight := ts\<rparr>) @ [(c, Inl x)]\<rparr>"
      then show ?thesis using Fail [of ep opts ts x] Some p AwaitRefresh c' st
        by (simp add: cl has_window_def)
    next
      fix tok assume "refresh_receive e c ep opts fr (w\<lparr>inflight := ts\<rparr>) =
        (setToken tok (w\<lparr>inflight := ts\<rparr>))\<lparr>isRefreshing := False, refreshSubscribers := [],
          sent := sent (w\<lparr>inflight := ts\<rparr>) @
            map (resend_of e (setToken tok (w\<lparr>inflight := ts\<rparr>)))
              (refreshSubscribers (w\<lparr>inflight := ts\<rparr>) @ [Waiter c ep opts]),
          inflight := inflight (w\<lparr>inflight := ts\<rparr>) @
            map retry_task (refreshSubscribers (w\<lparr>inflight := ts\<rparr>) @ [Waiter c ep opts])\<rparr>"
      then show ?thesis using Success [of ep opts ts tok] Some p AwaitRefresh c' st
        by (simp add: se)
    qed
  qed
qed

section \<open>Invariants of every interleaving\<close>

lemma take_task_set:
  assumes "take_task c l = Some (t, ts)"
  shows "set l = insert t (set ts)"
  using take_task_Some [OF assms] by auto

lemma take_task_filter:
  assumes "take_task c l = Some (t, ts)"
  shows "length (filter P l) = (if P t then 1 else 0) + length (filter P ts)"
  using take_task_Some [OF assms] by auto

lemma distinct_middle:
  "distinct (A @ (X @ a # Y) @ Z) \<longleftrightarrow>
     distinct (A @ (X @ Y) @ Z) \<and> a \<notin> set (A @ (X @ Y) @ Z)"
  by auto

lemma take_task_callers:
  assumes "take_task c l = Some (t, ts)"
  shows "set (map task_caller l) = insert c (set (map task_caller ts))"
    and "distinct (ys @ map task_caller l @ zs) \<longleftrightarrow>
      distinct (ys @ map task_caller ts @ zs) \<and> c \<notin> set (ys @ map task_caller ts @ zs)"
proof -
  from take_task_Some [OF assms] obtain xs' ys' where
    c: "task_caller t = c" and l: "l = xs' @ t # ys'" and ts: "ts = xs' @ ys'"
    by blast
  show "set (map task_caller l) = insert c (set (map task_caller ts))"
    using c l ts by auto
  show "distinct (ys @ map task_caller l @ zs) \<longleftrightarrow>
      distinct (ys @ map task_caller ts @ zs) \<and> c \<notin> set (ys @ map task_caller ts @ zs)"
    using distinct_middle [of ys "map task_caller xs'" c "map task_caller ys'" zs]
    by (simp only: l ts c [symmetric] map_append list.map)
qed

lemma retry_task_caller [simp]: "task_caller (retry_task wt) = waiter_caller wt"
  by (cases wt) simp

lemma retry_task_caller_comp [simp]: "task_caller \<circ> retry_task = waiter_caller"
  by (rule ext) simp

lemma retry_task_not_refresh [simp]: "\<not> is_refresh_task (retry_task wt)"
  by (cases wt) simp

lemma retry_task_not_first [simp]: "\<not> first_attempt (retry_task wt)"
  by (cases wt) simp

lemma origin_resend_of [simp]: "out_origin (resend_of e w wt) = RequestOf (waiter_caller wt)"
  by (cases wt) (simp add: build_config_def Let_def)

lemma origin_build_config [simp]: "out_origin (build_config e w c ep opts) = RequestOf c"
  by (simp add: build_config_def Let_def)

lemma origin_refresh_request [simp]: "out_origin (refresh_request e w c) = RefreshOf c"
  by (simp add: refresh_request_def)

subsection \<open>At most one refresh in flight\<close>

lemma inv_refresh_init: "inv_refresh (init ls)"
  by (simp add: inv_refresh_def init_def Let_def)

lemma inv_refresh_step:
  assumes "inv_refresh w"
  shows "inv_refresh (step e w ev)"
proof (cases ev)
  case (Call ep opts)
  with assms show ?thesis by (simp add: inv_refresh_def request_send_def)
next
  case (Resolve c fr)
  show ?thesis
  proof (cases rule: step_Resolve_cases [where c = c and w = w and e = e and fr = fr])
    case Idle
    with assms Resolve show ?thesis by simp
  next
    case (Settle ep opts retry ts res)
    with assms Resolve take_task_filter [OF Settle(1), of is_refresh_task]
    show ?thesis by (simp add: inv_refresh_def)
  next
    case (Start ep opts ts)
    with assms Resolve take_task_filter [OF Start(1), of is_refresh_task]
    show ?thesis by (simp add: inv_refresh_def)
  next
    case (Enqueue ep opts ts)
    with assms Resolve take_task_filter [OF Enqueue(1), of is_refresh_task]
    show ?thesis by (simp add: inv_refresh_def)
  next
    case (Fail ep opts ts x)
    with assms Resolve take_task_filter [OF Fail(1), of is_refresh_task]
    show ?thesis by (simp add: inv_refresh_def split: if_splits)
  next
    case (Success ep opts ts tok)
    with assms Resolve take_task_filter [OF Success(1), of is_refresh_task]
    show ?thesis by (simp add: inv_refresh_def split: if_splits)
  qed
qed

subsection \<open>Every caller is in one place\<close>

lemma inv_callers_init: "inv_callers (init ls)"
  by (simp add: inv_callers_def callers_def pending_def init_def Let_def)

lemma inv_callers_take:
  assumes "inv_callers w" and "take_task c (inflight w) = Some (t, ts)"
  shows "distinct (map fst (settled w))" and "distinct (map task_caller ts)"
    and "distinct (map waiter_caller (refreshSubscribers w))"
    and "fst ` set (settled w) \<inter> task_caller ` set ts = {}"
    and "fst ` set (settled w) \<inter> waiter_caller ` set (refreshSubscribers w) = {}"
    and "task_caller ` set ts \<inter> waiter_caller ` set (refreshSubscribers w) = {}"
    and "c \<notin> fst ` set (settled w)" and "c \<notin> task_caller ` set ts"
    and "c \<notin> waiter_caller ` set (refreshSubscribers w)"
    and "c < nextId w"
    and "\<forall>x\<in>fst ` set (settled w). x < nextId w"
    and "\<forall>x\<in>task_caller ` set ts. x < nextId w"
    and "\<forall>x\<in>waiter_caller ` set (refreshSubscribers w). x < nextId w"
proof -
  let ?S = "map fst (settled w)" and ?W = "map waiter_caller (refreshSubscribers w)"
  from assms(1) have d: "distinct (?S @ map task_caller (inflight w) @ ?W)"
    and b: "\<forall>x\<in>set (?S @ map task_caller (inflight w) @ ?W). x < nextId w"
    by (simp_all add: inv_callers_def callers_def pending_def)
  from d take_task_callers(2) [OF assms(2), of ?S ?W]
  have d': "distinct (?S @ map task_caller ts @ ?W)" and c: "c \<notin> set (?S @ map task_caller ts @ ?W)"
    by blast+
  from d' show "distinct (map fst (settled w))" "distinct (map task_caller ts)"
    "distinct (map waiter_caller (refreshSubscribers w))"
    "fst ` set (settled w) \<inter> task_caller ` set ts = {}"
    "fst ` set (settled w) \<inter> waiter_caller ` set (refreshSubscribers w) = {}"
    "task_caller ` set ts \<inter> waiter_caller ` set (refreshSubscribers w) = {}"
    by auto
  from c show "c \<notin> fst ` set (settled w)" "c \<notin> task_caller ` set ts"
    "c \<notin> waiter_caller ` set (refreshSubscribers w)"
    by auto
  from b take_task_callers(1) [OF assms(2)]
  show "c < nextId w" "\<forall>x\<in>fst ` set (settled w). x < nextId w"
    "\<forall>x\<in>task_caller ` set ts. x < nextId w"
    "\<forall>x\<in>waiter_caller ` set (refreshSubscribers w). x < nextId w"
    by auto
qed

lemma inv_callers_step:
  assumes "inv_callers w"
  shows "inv_callers (step e w ev)"
proof (cases ev)
  case (Call ep opts)
  from assms have "distinct (callers w)" "\<forall>c\<in>set (callers w). c < nextId w"
    by (simp_all add: inv_callers_def)
  then have "nextId w \<notin> set (callers w)" by auto
  with assms Call show ?thesis
    by (auto simp: inv_callers_def callers_def pending_def request_send_def less_Suc_eq)
next
  case (Resolve c fr)
  show ?thesis
  proof (cases rule: step_Resolve_cases [where c = c and w = w and e = e and fr = fr])
    case Idle
    with assms Resolve show ?thesis by simp
  next
    case (Settle ep opts retry ts res)
    note T = inv_callers_take [OF assms Settle(1)]
    show ?thesis unfolding Resolve Settle(2) inv_callers_def callers_def pending_def
      using T by (simp add: image_Un Int_Un_distrib Int_Un_distrib2 ball_Un)
  next
    case (Start ep opts ts)
    note T = inv_callers_take [OF assms Start(1)]
    show ?thesis unfolding Resolve Start(4) inv_callers_def callers_def pending_def
      using T by (simp add: image_Un Int_Un_distrib Int_Un_distrib2 ball_Un)
  next
    case (Enqueue ep opts ts)
    note T = inv_callers_take [OF assms Enqueue(1)]
    show ?thesis unfolding Resolve Enqueue(4) inv_callers_def callers_def pending_def
      using T by (simp add: image_Un Int_Un_distrib Int_Un_distrib2 ball_Un)
  next
    case (Fail ep opts ts x)
    note T = inv_callers_take [OF assms Fail(1)]
    show ?thesis unfolding Resolve Fail(2) inv_callers_def callers_def pending_def
      using T by (simp add: image_Un Int_Un_distrib Int_Un_distrib2 ball_Un)
  next
    case (Success ep opts ts tok)
    note T = inv_callers_take [OF assms Success(1)]
    have i: "task_caller ` retry_task ` set (refreshSubscribers w) =
        waiter_caller ` set (refreshSubscribers w)"
      by (simp add: image_image)
    show ?thesis unfolding Resolve Success(2) inv_callers_def callers_def pending_def
      using T by (simp add: i image_Un Int_Un_distrib Int_Un_distrib2 ball_Un Int_commute)
  qed
qed

subsection \<open>How often a request goes out\<close>

lemma sends_append:
  assumes "sent w' = sent w @ xs"
  shows "sends w' c = sends w c + length (filter (\<lambda>out. out_origin out = RequestOf c) xs)"
  by (simp add: sends_def assms)

lemma count_distinct:
  "distinct (map f xs) \<Longrightarrow> length (filter (\<lambda>x. f x = a) xs) = (if a \<in> f ` set xs then 1 else 0)"
  by (induction xs) auto

lemma inv_sends_init: "inv_sends (init ls)"
  by (simp add: inv_sends_def sends_def init_def Let_def)

lemma inv_sends_task:
  assumes "inv_sends w" and "take_task c (inflight w) = Some (t, ts)"
  shows "sends w c = (if first_attempt t then 1 else 2)"
    and "\<forall>t'\<in>set ts. sends w (task_caller t') = (if first_attempt t' then 1 else 2)"
proof -
  from take_task_Some [OF assms(2)] take_task_set [OF assms(2)]
  have "task_caller t = c" "t \<in> set (inflight w)" "set ts \<subseteq> set (inflight w)"
    by auto
  with assms(1) show "sends w c = (if first_attempt t then 1 else 2)"
    "\<forall>t'\<in>set ts. sends w (task_caller t') = (if first_attempt t' then 1 else 2)"
    by (auto simp: inv_sends_def)
qed

lemma inv_sends_step:
  assumes "inv_sends w" and "inv_callers w"
  shows "inv_sends (step e w ev)"
proof (cases ev)
  case (Call ep opts)
  let ?w' = "step e w ev"
  have s: "\<And>c. sends ?w' c = sends w c + (if c = nextId w then 1 else 0)"
    by (simp add: Call sends_def request_send_def)
  from assms(2) have lt: "\<forall>t\<in>set (inflight w). task_caller t < nextId w"
    "\<forall>wt\<in>set (refreshSubscribers w). waiter_caller wt < nextId w"
    by (auto simp: inv_callers_def callers_def pending_def)
  from assms(1) have z: "sends w (nextId w) = 0" by (simp add: inv_sends_def)
  have i: "inflight ?w' = inflight w @ [AwaitFetch (nextId w) ep opts True]"
    "refreshSubscribers ?w' = refreshSubscribers w" "nextId ?w' = Suc (nextId w)"
    by (simp_all add: Call request_send_def)
  show ?thesis unfolding inv_sends_def
  proof (intro conjI allI ballI impI)
    fix c show "sends ?w' c \<le> 2" using assms(1) z by (simp add: s inv_sends_def)
  next
    fix t assume "t \<in> set (inflight ?w')"
    then show "sends ?w' (task_caller t) = (if first_attempt t then 1 else 2)"
      using assms(1) lt(1) z by (auto simp: i s inv_sends_def)
  next
    fix wt assume "wt \<in> set (refreshSubscribers ?w')"
    then show "sends ?w' (waiter_caller wt) = 1"
      using assms(1) lt(2) by (auto simp: i s inv_sends_def)
  next
    fix c assume "nextId ?w' \<le> c"
    then show "sends ?w' c = 0" using assms(1) by (simp add: i s inv_sends_def)
  qed
next
  case (Resolve c fr)
  define w' where "w' = step e w (Resolve c fr)"
  have "inv_sends w'"
  proof (cases rule: step_Resolve_cases [where c = c and w = w and e = e and fr = fr])
    case Idle
    with assms show "inv_sends w'" by (simp add: w'_def)
  next
    case (Settle ep opts retry ts res)
    note eq = Settle(2) [folded w'_def]
    have s: "\<And>c'. sends w' c' = sends w c'" by (simp add: eq sends_def)
    from assms(1) inv_sends_task(2) [OF assms(1) Settle(1)]
    show "inv_sends w'" unfolding inv_sends_def s by (simp add: eq)
  next
    case (Start ep opts ts)
    note eq = Start(4) [folded w'_def]
    have s: "\<And>c'. sends w' c' = sends w c'" by (simp add: eq sends_def)
    from assms(1) inv_sends_task [OF assms(1) Start(1)]
    show "inv_sends w'" unfolding inv_sends_def s by (simp add: eq)
  next
    case (Enqueue ep opts ts)
    note eq = Enqueue(4) [folded w'_def]
    have s: "\<And>c'. sends w' c' = sends w c'" by (simp add: eq sends_def)
    from assms(1) inv_sends_task [OF assms(1) Enqueue(1)]
    show "inv_sends w'" unfolding inv_sends_def s by (simp add: eq)
  next
    case (Fail ep opts ts x)
    note eq = Fail(2) [folded w'_def]
    have s: "\<And>c'. sends w' c' = sends w c'" by (simp add: eq sends_def)
    from assms(1) inv_sends_task(2) [OF assms(1) Fail(1)]
    show "inv_sends w'" unfolding inv_sends_def s by (simp add: eq)
  next
    case (Success ep opts ts tok)
    note eq = Success(2) [folded w'_def]
    note T = inv_callers_take [OF assms(2) Success(1)]
    let ?W = "waiter_caller ` set (refreshSubscribers w)"
    have s: "\<And>c'. sends w' c' = sends w c' + (if c' \<in> ?W then 1 else 0) + (if c' = c then 1 else 0)"
      using count_distinct [OF T(3)]
      by (simp add: eq sends_def comp_def eq_commute [of c])
    from inv_sends_task [OF assms(1) Success(1)]
    have c1: "sends w c = 1"
      and tsk: "\<forall>t'\<in>set ts. sends w (task_caller t') = (if first_attempt t' then 1 else 2)"
      by simp_all
    from assms(1) have w1: "\<forall>c'\<in>?W. sends w c' = 1" and le: "\<And>c'. sends w c' \<le> 2"
      and z: "\<And>c'. nextId w \<le> c' \<Longrightarrow> sends w c' = 0"
      by (auto simp: inv_sends_def)
    have i: "inflight w' = ts @ map retry_task (refreshSubscribers w) @ [AwaitFetch c ep opts False]"
      "refreshSubscribers w' = []" "nextId w' = nextId w"
      by (simp_all add: eq)
    show "inv_sends w'" unfolding inv_sends_def
    proof (intro conjI allI ballI impI)
      fix c' show "sends w' c' \<le> 2" using c1 w1 le [of c'] T(9) by (auto simp: s)
    next
      fix t assume "t \<in> set (inflight w')"
      then consider "t \<in> set ts" | wt where "wt \<in> set (refreshSubscribers w)" "t = retry_task wt"
        | "t = AwaitFetch c ep opts False"
        by (auto simp: i)
      then show "sends w' (task_caller t) = (if first_attempt t then 1 else 2)"
      proof cases
        case 1
        with T(6) T(8) have "task_caller t \<notin> ?W" "task_caller t \<noteq> c" by auto
        with 1 tsk show ?thesis by (simp add: s)
      next
        case 2
        with T(9) have "waiter_caller wt \<in> ?W" "waiter_caller wt \<noteq> c" by auto
        with 2 w1 show ?thesis by (simp add: s)
      next
        case 3
        with c1 T(9) show ?thesis by (simp add: s)
      qed
    next
      fix wt assume "wt \<in> set (refreshSubscribers w')"
      then show "sends w' (waiter_caller wt) = 1" by (simp add: i)
    next
      fix c' assume n: "nextId w' \<le> c'"
      with T(10) T(13) have "c' \<notin> ?W" "c' \<noteq> c" by (auto simp: i)
      with n z [of c'] show "sends w' c' = 0" by (simp add: s i)
    qed
  qed
  then show ?thesis by (simp only: Resolve w'_def)
qed

subsection \<open>Runs\<close>

lemma inv_init: "inv (init ls)"
  by (simp add: inv_def inv_refresh_init inv_callers_init inv_sends_init)

lemma inv_step: "inv w \<Longrightarrow> inv (step e w ev)"
  by (simp add: inv_def inv_refresh_step inv_callers_step inv_sends_step)

lemma inv_run: "inv w \<Longrightarrow> inv (run e w evs)"
  unfolding run_def by (induction evs arbitrary: w) (simp_all add: inv_step)

lemma run_append: "run e w (evs @ evs') = run e (run e w evs) evs'"
  by (simp add: run_def)

lemma run_snoc: "run e w (evs @ [ev]) = step e (run e w evs) ev"
  by (simp add: run_def)

section \<open>The token store is cleared in one step\<close>

lemma getItem_update [simp]:
  "getItem (w\<lparr>token := a\<rparr>) = getItem w"
  "getItem (w\<lparr>refreshToken := a\<rparr>) = getItem w"
  "getItem (w\<lparr>isRefreshing := b\<rparr>) = getItem w"
  "getItem (w\<lparr>refreshSubscribers := ws\<rparr>) = getItem w"
  "getItem (w\<lparr>location := l\<rparr>) = getItem w"
  "getItem (w\<lparr>sent := s\<rparr>) = getItem w"
  "getItem (w\<lparr>inflight := ts\<rparr>) = getItem w"
  "getItem (w\<lparr>settled := st\<rparr>) = getItem w"
  "getItem (w\<lparr>nextId := n\<rparr>) = getItem w"
  by (simp_all add: getItem_def fun_eq_iff)

lemma getItem_clearToken:
  "getItem (clearToken w) k = (if k \<in> set session_keys then None else getItem w k)"
  by (simp add: clearToken_eq getItem_def session_keys_def split: option.splits)

lemma getItem_setToken:
  "getItem (setToken tok w) k =
     (if k = ''accessToken'' \<and> has_window w then Some (toStr tok) else getItem w k)"
  by (simp add: setToken_eq getItem_def has_window_def split: option.splits)

lemma getItem_step:
  "(\<forall>k. getItem (step e w ev) k = getItem w k) \<or>
   (\<forall>k. getItem (step e w ev) k = getItem (clearToken w) k) \<or>
   (\<exists>tok. \<forall>k. getItem (step e w ev) k = getItem (setToken tok w) k)"
proof (cases ev)
  case (Call ep opts)
  then show ?thesis by (simp add: request_send_def)
next
  case (Resolve c fr)
  define w' where "w' = step e w (Resolve c fr)"
  have "(\<forall>k. getItem w' k = getItem w k) \<or>
   (\<forall>k. getItem w' k = getItem (clearToken w) k) \<or>
   (\<exists>tok. \<forall>k. getItem w' k = getItem (setToken tok w) k)"
  proof (cases rule: step_Resolve_cases [where c = c and w = w and e = e and fr = fr])
    case Idle
    then show ?thesis by (simp add: w'_def)
  next
    case (Settle ep opts retry ts res)
    then show ?thesis by (simp add: w'_def)
  next
    case (Start ep opts ts)
    then show ?thesis by (simp add: w'_def)
  next
    case (Enqueue ep opts ts)
    then show ?thesis by (simp add: w'_def)
  next
    case (Fail ep opts ts x)
    from Fail(2) [folded w'_def] show ?thesis by simp
  next
    case (Success ep opts ts tok)
    from Success(2) [folded w'_def] have "\<forall>k. getItem w' k = getItem (setToken tok w) k" by simp
    then show ?thesis by blast
  qed
  then show ?thesis by (simp only: Resolve w'_def)
qed

lemmas demo_eval = run_def init_def Let_def demo_storage_def demo_env_def no_options_def expired_def
  refreshed_def not_found_def has_window_def getItem_def request_send_def request_receive_def
  attemptTokenRefresh_send_def stored_def refresh_receive_def attemptTokenRefresh_receive_def
  refresh_failed_def settle_def clearToken_eq setToken_eq onTokenRefreshed_eq subscribeTokenRefresh_def
  session_keys_def ok_def

text \<open>
  Claim C6. \<^verbatim>\<open>clearToken\<close> leaves both tokens \<^verbatim>\<open>null\<close> and none of the three
  entries of \<^verbatim>\<open>localStorage\<close>. It has no \<^verbatim>\<open>await\<close>, so it is part of one event:
  whatever an event does to the three entries, it either removes none of those that
  were there or leaves all three absent, so that no code running between two events
  reads a session of which only a part has been removed.
\<close>

theorem clearToken_atomic:
  "(token (clearToken w) = JNull \<and> refreshToken (clearToken w) = JNull \<and>
    (\<forall>k\<in>set session_keys. getItem (clearToken w) k = None)) \<and>
   ((\<forall>k\<in>set session_keys. getItem w k \<noteq> None \<longrightarrow> getItem (step e w ev) k \<noteq> None) \<or>
    (\<forall>k\<in>set session_keys. getItem (step e w ev) k = None))"
proof -
  have a: "token (clearToken w) = JNull \<and> refreshToken (clearToken w) = JNull \<and>
    (\<forall>k\<in>set session_keys. getItem (clearToken w) k = None)"
    by (simp add: getItem_clearToken)
  from getItem_step [of e w ev]
  have b: "(\<forall>k\<in>set session_keys. getItem w k \<noteq> None \<longrightarrow> getItem (step e w ev) k \<noteq> None) \<or>
    (\<forall>k\<in>set session_keys. getItem (step e w ev) k = None)"
  proof (elim disjE exE)
    assume "\<forall>k. getItem (step e w ev) k = getItem w k"
    then show ?thesis by simp
  next
    assume "\<forall>k. getItem (step e w ev) k = getItem (clearToken w) k"
    then show ?thesis by (simp add: getItem_clearToken)
  next
    fix tok assume "\<forall>k. getItem (step e w ev) k = getItem (setToken tok w) k"
    then show ?thesis by (simp add: getItem_setToken)
  qed
  from a b show ?thesis by blast
qed

theorem clearToken_atomic_witness:
  "getItem refreshing_world ''accessToken'' = Some ''A1'' \<and>
   getItem refreshing_world ''refreshToken'' = Some ''R1'' \<and>
   getItem refreshing_world ''user'' = Some ''{}'' \<and>
   getItem (step demo_env refreshing_world (Resolve 0 NetworkFailure)) ''accessToken'' = None \<and>
   getItem (step demo_env refreshing_world (Resolve 0 NetworkFailure)) ''refreshToken'' = None \<and>
   getItem (step demo_env refreshing_world (Resolve 0 NetworkFailure)) ''user'' = None \<and>
   getItem (clearToken refreshing_world) ''user'' = None \<and>
   getItem (step demo_env refreshing_world (Call ''/tickets/'' no_options)) ''accessToken'' =
     Some ''A1'' \<and>
   getItem (step demo_env refreshing_world (Call ''/tickets/'' no_options)) ''refreshToken'' =
     Some ''R1'' \<and>
   getItem (step demo_env refreshing_world (Call ''/tickets/'' no_options)) ''user'' = Some ''{}''"
  using clearToken_atomic [of refreshing_world demo_env "Resolve 0 NetworkFailure"]
    clearToken_atomic [of refreshing_world demo_env "Call ''/tickets/'' no_options"]
  by (simp add: refreshing_world_def demo_eval)

section \<open>Bodies and content types of outgoing requests\<close>









section \<open>Errors and results of a response\<close>

text \<open>
  Claim C8, as the code has it. A response that is not ok and starts no refresh rejects
  the caller: with a \<^verbatim>\<open>SyntaxError\<close> when the body does not parse, with a
  \<^verbatim>\<open>TypeError\<close> when it is \<^verbatim>\<open>null\<close>, and otherwise with an \<^verbatim>\<open>Error\<close> whose message
  is \<^verbatim>\<open>detail\<close> when that is truthy, else \<^verbatim>\<open>message\<close> when that is truthy, and
  only else the text that holds the status code.
\<close>

theorem api_error_content:
  assumes "\<not> ok r" and "\<not> (status r = 401 \<and> retry \<and> truthy (refreshToken w))"
  shows "\<exists>x. request_receive e c ep opts retry (Response r) w = settle c (Inl x) w \<and>
    (case read_data e r of
       None \<Rightarrow> x = SyntaxError
     | Some d \<Rightarrow>
         if d = JNull \<or> d = JUndefined then x = TypeError
         else x = Error (if truthy (get_prop d ''detail'') then toStr (get_prop d ''detail'')
                         else if truthy (get_prop d ''message'') then toStr (get_prop d ''message'')
                         else ''API request failed: '' @ dec (status r)))"
  using assms
  by (auto simp: request_receive_def read_response_def error_message_def member_def
        split: option.splits)

theorem api_error_content_witness:
  "request_receive demo_env 0 ''/assets/42'' no_options True (Response (not_found 404))
      (init demo_storage) =
     settle 0 (Inl (Error ''Not found'')) (init demo_storage) \<and>
   request_receive demo_env 0 ''/assets/42'' no_options True
      (Response \<lparr>status = 500, contentType = None, body_text = []\<rparr>) (init demo_storage) =
     settle 0 (Inl (Error ''API request failed: 500'')) (init demo_storage)"
  using api_error_content [of "not_found 404" True "init demo_storage" demo_env 0 "''/assets/42''" no_options]
    api_error_content [of "\<lparr>status = 500, contentType = None, body_text = []\<rparr>" True
      "init demo_storage" demo_env 0 "''/assets/42''" no_options]
  by (simp add: demo_eval read_response_def read_data_def is_json_def error_message_def member_def
        demo_parse_def one_field_def dq_def login_data_def dec.simps)

text \<open>
  Claim C8 as stated fails: with a \<^verbatim>\<open>detail\<close> in the body, a 404 and a 500 reject
  the caller with the same error, which therefore does not carry the status code.
\<close>

theorem api_error_status_counterexample:
  "settled (run demo_env (init demo_storage)
      [Call ''/assets/42'' no_options, Resolve 0 (Response (not_found 404))]) =
     [(0, Inl (Error ''Not found''))] \<and>
   settled (run demo_env (init demo_storage)
      [Call ''/assets/42'' no_options, Resolve 0 (Response (not_found 500))]) =
     [(0, Inl (Error ''Not found''))]"
  by (simp add: demo_eval read_response_def read_data_def is_json_def error_message_def member_def
        demo_parse_def one_field_def dq_def login_data_def)

lemma ok_not_401: "ok r \<Longrightarrow> status r \<noteq> 401"
  by (simp add: ok_def)

lemma error_message_not_SyntaxError: "error_message r d \<noteq> SyntaxError"
  by (simp add: error_message_def member_def)

text \<open>
  Claim C9, as the code has it. An ok response whose content type is not JSON and whose
  text is empty resolves the caller with \<^verbatim>\<open>{}\<close>; every other ok response is parsed,
  and a text that does not parse rejects the caller with a \<^verbatim>\<open>SyntaxError\<close>. That
  is another class than the \<^verbatim>\<open>TypeError\<close> of a failed fetch. A response that is not
  ok is parsed in the same way before its status is looked at: it rejects with this
  \<^verbatim>\<open>SyntaxError\<close> exactly when its body does not parse, and with another error
  when it does. Nothing but the caller's promise changes.
\<close>

theorem response_decoding:
  assumes "ok r"
  shows "request_receive e c ep opts retry (Response r) w =
      w\<lparr>settled := settled w @
        [(c, if \<not> is_json r \<and> body_text r = [] then Inr (JObj [])
             else (case JSON_parse e (body_text r) of
                     None \<Rightarrow> Inl SyntaxError
                   | Some d \<Rightarrow> Inr d))]\<rparr> \<and>
    request_receive e c ep opts retry NetworkFailure w =
      w\<lparr>settled := settled w @ [(c, Inl TypeError)]\<rparr> \<and>
    (\<forall>r'. \<not> ok r' \<and> \<not> (status r' = 401 \<and> retry \<and> truthy (refreshToken w)) \<longrightarrow>
      (\<exists>x. request_receive e c ep opts retry (Response r') w =
             w\<lparr>settled := settled w @ [(c, Inl x)]\<rparr> \<and>
           (x = SyntaxError \<longleftrightarrow>
              (if \<not> is_json r' \<and> body_text r' = [] then False
               else JSON_parse e (body_text r') = None)))) \<and>
    SyntaxError \<noteq> TypeError"
proof -
  from assms have n: "status r \<noteq> 401" by (rule ok_not_401)
  have a: "request_receive e c ep opts retry (Response r) w =
      w\<lparr>settled := settled w @
        [(c, if \<not> is_json r \<and> body_text r = [] then Inr (JObj [])
             else (case JSON_parse e (body_text r) of
                     None \<Rightarrow> Inl SyntaxError
                   | Some d \<Rightarrow> Inr d))]\<rparr>"
    using assms n
    by (simp add: request_receive_def read_response_def read_data_def settle_def
          split: option.splits)
  have b: "request_receive e c ep opts retry NetworkFailure w =
      w\<lparr>settled := settled w @ [(c, Inl TypeError)]\<rparr>"
    by (simp add: request_receive_def settle_def)
  have c: "\<exists>x. request_receive e c ep opts retry (Response r') w =
             w\<lparr>settled := settled w @ [(c, Inl x)]\<rparr> \<and>
           (x = SyntaxError \<longleftrightarrow>
              (if \<not> is_json r' \<and> body_text r' = [] then False
               else JSON_parse e (body_text r') = None))"
    if "\<not> ok r'" "\<not> (status r' = 401 \<and> retry \<and> truthy (refreshToken w))" for r'
  proof (cases "read_data e r'")
    case None
    then have p: "(if \<not> is_json r' \<and> body_text r' = [] then False
        else JSON_parse e (body_text r') = None)"
      by (auto simp: read_data_def split: if_splits)
    from that None have "request_receive e c ep opts retry (Response r') w =
        w\<lparr>settled := settled w @ [(c, Inl SyntaxError)]\<rparr>"
      by (auto simp: request_receive_def read_response_def settle_def)
    with p show ?thesis by blast
  next
    case (Some d)
    then have p: "\<not> (if \<not> is_json r' \<and> body_text r' = [] then False
        else JSON_parse e (body_text r') = None)"
      by (auto simp: read_data_def split: if_splits)
    from that Some have "request_receive e c ep opts retry (Response r') w =
        w\<lparr>settled := settled w @ [(c, Inl (error_message r' d))]\<rparr>"
      by (auto simp: request_receive_def read_response_def settle_def)
    with p error_message_not_SyntaxError [of r' d] show ?thesis by blast
  qed
  from a b c show ?thesis by blast
qed

theorem response_decoding_witness:
  "settled (request_receive demo_env 0 ''/auth/logout'' no_options True (Response empty_reply)
      (init demo_storage)) = [(0, Inr (JObj []))] \<and>
   settled (request_receive demo_env 0 ''/assets/'' no_options True (Response (html_page 200))
      (init demo_storage)) = [(0, Inl SyntaxError)] \<and>
   settled (request_receive demo_env 0 ''/assets/'' no_options True
      (Response \<lparr>status = 200, contentType = Some ''text/plain'', body_text = ''[]''\<rparr>)
      (init demo_storage)) = [(0, Inr (JArr []))] \<and>
   settled (request_receive demo_env 0 ''/assets/42'' no_options True (Response (not_found 404))
      (init demo_storage)) \<noteq> [(0, Inl SyntaxError)] \<and>
   settled (request_receive demo_env 0 ''/assets/'' no_options True (Response (html_page 502))
      (init demo_storage)) = [(0, Inl SyntaxError)]"
proof -
  let ?w = "init demo_storage"
  note dec_eval = ok_def empty_reply_def html_page_def not_found_def is_json_def demo_env_def
    demo_parse_def one_field_def login_data_def dq_def
  have e: "settled ?w = []"
    by (simp add: init_def Let_def)
  from response_decoding [of empty_reply demo_env 0 "''/auth/logout''" no_options True ?w]
  have a: "settled (request_receive demo_env 0 ''/auth/logout'' no_options True
      (Response empty_reply) ?w) = [(0, Inr (JObj []))]"
    by (simp add: dec_eval e)
  from response_decoding [of "html_page 200" demo_env 0 "''/assets/''" no_options True ?w]
  have b: "settled (request_receive demo_env 0 ''/assets/'' no_options True
      (Response (html_page 200)) ?w) = [(0, Inl SyntaxError)]"
    by (simp add: dec_eval e)
  from response_decoding [of "\<lparr>status = 200, contentType = Some ''text/plain'', body_text = ''[]''\<rparr>"
      demo_env 0 "''/assets/''" no_options True ?w]
  have c: "settled (request_receive demo_env 0 ''/assets/'' no_options True
      (Response \<lparr>status = 200, contentType = Some ''text/plain'', body_text = ''[]''\<rparr>) ?w) =
      [(0, Inr (JArr []))]"
    by (simp add: dec_eval e)
  have k: "ok empty_reply" by (simp add: dec_eval)
  have nk: "\<not> ok (not_found 404)" "status (not_found 404) \<noteq> 401"
    "\<not> ok (html_page 502)" "status (html_page 502) \<noteq> 401"
    by (simp_all add: dec_eval)
  have p: "JSON_parse demo_env (body_text (not_found 404)) \<noteq> None"
    "JSON_parse demo_env (body_text (html_page 502)) = None"
    "body_text (html_page 502) \<noteq> []" "body_text (not_found 404) \<noteq> []"
    by (simp_all add: dec_eval)
  from response_decoding [OF k, of demo_env 0 "''/assets/42''" no_options True ?w] nk(1,2)
  obtain x where x: "request_receive demo_env 0 ''/assets/42'' no_options True
      (Response (not_found 404)) ?w = ?w\<lparr>settled := settled ?w @ [(0, Inl x)]\<rparr>"
    "x = SyntaxError \<longleftrightarrow> (if \<not> is_json (not_found 404) \<and> body_text (not_found 404) = [] then False
               else JSON_parse demo_env (body_text (not_found 404)) = None)"
    by blast
  from x(2) p have "x \<noteq> SyntaxError" by simp
  with x(1) e have d: "settled (request_receive demo_env 0 ''/assets/42'' no_options True
      (Response (not_found 404)) ?w) \<noteq> [(0, Inl SyntaxError)]"
    by simp
  from response_decoding [OF k, of demo_env 0 "''/assets/''" no_options True ?w] nk(3,4)
  obtain y where y: "request_receive demo_env 0 ''/assets/'' no_options True
      (Response (html_page 502)) ?w = ?w\<lparr>settled := settled ?w @ [(0, Inl y)]\<rparr>"
    "y = SyntaxError \<longleftrightarrow> (if \<not> is_json (html_page 502) \<and> body_text (html_page 502) = [] then False
               else JSON_parse demo_env (body_text (html_page 502)) = None)"
    by blast
  from y(2) p have "y = SyntaxError" by simp
  with y(1) e have f: "settled (request_receive demo_env 0 ''/assets/'' no_options True
      (Response (html_page 502)) ?w) = [(0, Inl SyntaxError)]"
    by simp
  from a b c d f show ?thesis by blast
qed

text \<open>
  Claim C9 as stated fails: a 502 with a page of HTML for a body rejects the caller with
  the same \<^verbatim>\<open>SyntaxError\<close> as a 200 with that body, so the error of a parse failure
  is not of a kind of its own beside the errors of responses that are not ok.
\<close>

theorem response_decoding_counterexample:
  "ok (html_page 200) \<and> \<not> ok (html_page 502) \<and>
   settled (run demo_env (init demo_storage)
      [Call ''/assets/'' no_options, Resolve 0 (Response (html_page 200))]) =
     [(0, Inl SyntaxError)] \<and>
   settled (run demo_env (init demo_storage)
      [Call ''/assets/'' no_options, Resolve 0 (Response (html_page 502))]) =
     [(0, Inl SyntaxError)]"
  by (simp add: demo_eval read_response_def read_data_def is_json_def error_message_def member_def
        demo_parse_def one_field_def dq_def login_data_def html_page_def)

section \<open>Login keeps the refresh token\<close>

lemmas token_store_eq = setToken_eq setRefreshToken_eq setItem_eq has_window_def getItem_def

text \<open>
  Claim C10. When \<^verbatim>\<open>login\<close> succeeds and the response has no truthy
  \<^verbatim>\<open>refresh_token\<close> (in particular none at all), the refresh token stays as it was,
  in memory and in \<^verbatim>\<open>localStorage\<close>, while the access token and the cached user are
  overwritten with the values of the response.
\<close>

theorem login_keeps_refresh_token:
  assumes "login_receive e fr w = (Inr d, w')" and "\<not> truthy (get_prop d ''refresh_token'')"
  shows "refreshToken w' = refreshToken w \<and>
    getItem w' ''refreshToken'' = getItem w ''refreshToken'' \<and>
    token w' = get_prop d ''access_token'' \<and>
    localStorage w' =
      map_option (\<lambda>m. m(''accessToken'' \<mapsto> toStr (get_prop d ''access_token''),
                         ''user'' \<mapsto> stringify_item e (get_prop d ''user'')))
        (localStorage w)"
  using assms
  by (auto simp: login_receive_def member_def Let_def token_store_eq option.map_comp comp_def
        split: fetch_result.splits option.splits if_splits sum.splits)

theorem login_keeps_refresh_token_witness:
  "fst (login_receive demo_env (Response logged_in) (init demo_storage)) = Inr login_data \<and>
   get_prop login_data ''refresh_token'' = JUndefined \<and>
   refreshToken (snd (login_receive demo_env (Response logged_in) (init demo_storage))) = JStr ''R1'' \<and>
   getItem (snd (login_receive demo_env (Response logged_in) (init demo_storage))) ''refreshToken'' =
     Some ''R1'' \<and>
   token (snd (login_receive demo_env (Response logged_in) (init demo_storage))) = JStr ''A2'' \<and>
   getItem (snd (login_receive demo_env (Response logged_in) (init demo_storage))) ''accessToken'' =
     Some ''A2'' \<and>
   getItem (snd (login_receive demo_env (Response logged_in) (init demo_storage))) ''user'' =
     Some (plain_stringify (one_field ''email'' ''ann@example.org''))"
proof -
  let ?p = "login_receive demo_env (Response logged_in) (init demo_storage)"
  have f: "fst ?p = Inr login_data"
    by (simp add: login_receive_def logged_in_def demo_env_def demo_parse_def ok_def member_def
          login_data_def one_field_def dq_def Let_def)
  then have l: "?p = (Inr login_data, snd ?p)"
    by (simp add: prod_eq_iff)
  have u: "\<not> truthy (get_prop login_data ''refresh_token'')"
    by (simp add: login_data_def)
  have i: "refreshToken (init demo_storage) = JStr ''R1''"
    "getItem (init demo_storage) ''refreshToken'' = Some ''R1''"
    "localStorage (init demo_storage) = demo_storage"
    by (simp_all add: init_def demo_storage_def has_window_def getItem_def stored_def Let_def)
  have g: "get_prop login_data ''access_token'' = JStr ''A2''"
    "get_prop login_data ''user'' = one_field ''email'' ''ann@example.org''"
    "get_prop login_data ''refresh_token'' = JUndefined"
    by (simp_all add: login_data_def)
  from login_keeps_refresh_token [OF l u]
  have k: "refreshToken (snd ?p) = JStr ''R1''"
    "getItem (snd ?p) ''refreshToken'' = Some ''R1''"
    "token (snd ?p) = JStr ''A2''"
    "localStorage (snd ?p) =
      map_option (\<lambda>m. m(''accessToken'' \<mapsto> ''A2'',
                         ''user'' \<mapsto> plain_stringify (one_field ''email'' ''ann@example.org'')))
        demo_storage"
    by (simp_all add: i g stringify_item_def demo_env_def one_field_def)
  have s: "getItem (snd ?p) ''accessToken'' = Some ''A2''"
    "getItem (snd ?p) ''user'' = Some (plain_stringify (one_field ''email'' ''ann@example.org''))"
    unfolding getItem_def k(4) by (simp_all add: demo_storage_def)
  from f g(3) k(1-3) s show ?thesis by simp
qed

section \<open>Runs of the refresh logic\<close>

lemmas run_eval = demo_eval two_calls_def build_config_def serialize_body_def is_FormData_def
  refresh_request_def read_response_def read_data_def is_json_def error_message_def member_def
  demo_parse_def one_field_def login_data_def dq_def refresh_calls_def sends_def

lemma take_task_distinct:
  "distinct (map task_caller l) \<Longrightarrow> t \<in> set l \<Longrightarrow>
     take_task (task_caller t) l = Some (t, remove1 t l)"
proof (induction l)
  case Nil
  then show ?case by simp
next
  case (Cons a l)
  show ?case
  proof (cases "a = t")
    case True
    then show ?thesis by simp
  next
    case False
    with Cons.prems have t: "t \<in> set l" and d: "distinct (map task_caller l)"
      and n: "task_caller a \<noteq> task_caller t"
      by auto
    from Cons.IH [OF d t] n False show ?thesis by simp
  qed
qed

lemma step_first_401_idle:
  assumes "take_task c (inflight w) = Some (AwaitFetch c ep opts True, ts)"
    and "\<not> isRefreshing w" and "truthy (refreshToken w)" and "status r = 401"
  shows "step e w (Resolve c (Response r)) =
     w\<lparr>isRefreshing := True, sent := sent w @ [refresh_request e w c],
       inflight := ts @ [AwaitRefresh c ep opts]\<rparr>"
  using assms by (simp add: request_receive_def attemptTokenRefresh_send_def Let_def)

lemma step_first_401_refreshing:
  assumes "take_task c (inflight w) = Some (AwaitFetch c ep opts True, ts)"
    and "isRefreshing w" and "truthy (refreshToken w)" and "status r = 401"
  shows "step e w (Resolve c (Response r)) =
     w\<lparr>inflight := ts, refreshSubscribers := refreshSubscribers w @ [Waiter c ep opts]\<rparr>"
  using assms by (simp add: request_receive_def subscribeTokenRefresh_def)

lemma step_retry:
  assumes "take_task c (inflight w) = Some (AwaitFetch c ep opts False, ts)"
  shows "step e w (Resolve c (Response r)) =
     w\<lparr>inflight := ts, settled := settled w @ [(c, read_response e r)]\<rparr>"
  using assms by (simp add: request_receive_def settle_def)

lemma read_response_not_ok: "\<not> ok r \<Longrightarrow> \<exists>x. read_response e r = Inl x"
  by (simp add: read_response_def split: option.splits)

text \<open>While a refresh is in flight, 401s of first attempts only add subscribers.\<close>

lemma enqueue_run:
  assumes "isRefreshing w" and "truthy (refreshToken w)"
    and "distinct (map task_caller (inflight w))" and "distinct (map fst crs)"
    and "\<forall>(c, r)\<in>set crs. status r = 401 \<and> (\<exists>ep opts. AwaitFetch c ep opts True \<in> set (inflight w))"
  shows "sent (run e w (map (\<lambda>(c, r). Resolve c (Response r)) crs)) = sent w \<and>
    isRefreshing (run e w (map (\<lambda>(c, r). Resolve c (Response r)) crs)) \<and>
    filter is_refresh_task (inflight (run e w (map (\<lambda>(c, r). Resolve c (Response r)) crs))) =
      filter is_refresh_task (inflight w) \<and>
    map waiter_caller (refreshSubscribers (run e w (map (\<lambda>(c, r). Resolve c (Response r)) crs))) =
      map waiter_caller (refreshSubscribers w) @ map fst crs"
  using assms
proof (induction crs arbitrary: w)
  case Nil
  then show ?case by (simp add: run_def)
next
  case (Cons cr crs)
  obtain c r where cr: "cr = (c, r)" by (cases cr)
  from Cons.prems(5) cr obtain ep opts where r: "status r = 401"
    and t: "AwaitFetch c ep opts True \<in> set (inflight w)"
    by auto
  let ?t = "AwaitFetch c ep opts True"
  let ?ts = "remove1 ?t (inflight w)"
  from take_task_distinct [OF Cons.prems(3) t]
  have tk: "take_task c (inflight w) = Some (?t, ?ts)" by simp
  define w1 where "w1 = step e w (Resolve c (Response r))"
  have w1: "w1 = w\<lparr>inflight := ?ts, refreshSubscribers := refreshSubscribers w @ [Waiter c ep opts]\<rparr>"
    unfolding w1_def by (rule step_first_401_refreshing [OF tk Cons.prems(1,2) r])
  have p1: "isRefreshing w1" "truthy (refreshToken w1)"
    using Cons.prems(1,2) by (simp_all add: w1)
  have p3: "distinct (map task_caller (inflight w1))"
    using Cons.prems(3) take_task_callers(2) [OF tk, of "[]" "[]"] by (simp add: w1)
  have p4: "distinct (map fst crs)" using Cons.prems(4) by simp
  have p5: "\<forall>(c', r')\<in>set crs. status r' = 401 \<and>
      (\<exists>ep' opts'. AwaitFetch c' ep' opts' True \<in> set (inflight w1))"
  proof (clarify, intro conjI)
    fix c' r' assume m: "(c', r') \<in> set crs"
    with Cons.prems(5) show "status r' = 401" by auto
    from m Cons.prems(5) obtain ep' opts' where t': "AwaitFetch c' ep' opts' True \<in> set (inflight w)"
      by auto
    from m Cons.prems(4) cr have "c' \<noteq> c" by force
    with t' have "AwaitFetch c' ep' opts' True \<in> set (inflight w1)" by (simp add: w1)
    then show "\<exists>ep' opts'. AwaitFetch c' ep' opts' True \<in> set (inflight w1)" by blast
  qed
  from take_task_Some [OF tk] obtain xs ys where
    "inflight w = xs @ ?t # ys" and "?ts = xs @ ys"
    by blast
  then have f: "filter is_refresh_task (inflight w1) = filter is_refresh_task (inflight w)"
    by (simp add: w1)
  have rc: "run e w (map (\<lambda>(c, r). Resolve c (Response r)) (cr # crs)) =
      run e w1 (map (\<lambda>(c, r). Resolve c (Response r)) crs)"
    by (simp add: cr run_def w1_def del: step.simps)
  have s1: "sent w1 = sent w" "map waiter_caller (refreshSubscribers w1) =
      map waiter_caller (refreshSubscribers w) @ [c]"
    by (simp_all add: w1)
  from Cons.IH [OF p1 p3 p4 p5] show ?case
    unfolding rc by (simp add: f s1 cr)
qed

lemma inv_reachable: "inv (run e (init ls) evs)"
  by (rule inv_run [OF inv_init])

lemma sent_grows_step: "\<exists>xs. sent (step e w ev) = sent w @ xs"
proof (cases ev)
  case (Call ep opts)
  then show ?thesis by (simp add: request_send_def)
next
  case (Resolve c fr)
  define w' where "w' = step e w (Resolve c fr)"
  have "\<exists>xs. sent w' = sent w @ xs"
  proof (cases rule: step_Resolve_cases [where c = c and w = w and e = e and fr = fr])
    case Idle
    then show ?thesis by (simp add: w'_def)
  next
    case (Settle ep opts retry ts res)
    from Settle(2) [folded w'_def] show ?thesis by simp
  next
    case (Start ep opts ts)
    from Start(4) [folded w'_def] show ?thesis by simp
  next
    case (Enqueue ep opts ts)
    from Enqueue(4) [folded w'_def] show ?thesis by simp
  next
    case (Fail ep opts ts x)
    from Fail(2) [folded w'_def] show ?thesis by simp
  next
    case (Success ep opts ts tok)
    from Success(2) [folded w'_def] show ?thesis by simp
  qed
  then show ?thesis by (simp only: Resolve w'_def)
qed

lemma sends_mono_step: "sends w c \<le> sends (step e w ev) c"
proof -
  from sent_grows_step [of e w ev] obtain xs where "sent (step e w ev) = sent w @ xs" ..
  then show ?thesis by (simp add: sends_append)
qed

lemma sends_mono_run: "sends w c \<le> sends (run e w evs) c"
proof (induction evs arbitrary: w)
  case Nil
  show ?case by (simp add: run_def)
next
  case (Cons ev evs)
  have "sends w c \<le> sends (step e w ev) c" by (rule sends_mono_step)
  also have "\<dots> \<le> sends (run e (step e w ev) evs) c" by (rule Cons.IH)
  finally show ?case by (simp add: run_def del: step.simps)
qed

lemma attempt_receive_ok:
  assumes "ok r" and "JSON_parse e (body_text r) = Some d" and "d \<noteq> JNull" and "d \<noteq> JUndefined"
  shows "attemptTokenRefresh_receive e (Response r) w =
     (Inr (get_prop d ''access_token''), setToken (get_prop d ''access_token'') w)"
  using assms by (simp add: attemptTokenRefresh_receive_def member_def)

lemma refresh_receive_ok:
  assumes "ok r" and "JSON_parse e (body_text r) = Some d" and "d \<noteq> JNull" and "d \<noteq> JUndefined"
  shows "refresh_receive e c ep opts (Response r) w =
     (setToken (get_prop d ''access_token'') w)\<lparr>isRefreshing := False, refreshSubscribers := [],
        sent := sent w @ map (resend_of e (setToken (get_prop d ''access_token'') w))
                 (refreshSubscribers w @ [Waiter c ep opts]),
        inflight := inflight w @ map retry_task (refreshSubscribers w @ [Waiter c ep opts])\<rparr>"
  by (simp add: refresh_receive_def attempt_receive_ok [OF assms] request_send_def
        onTokenRefreshed_eq)

lemma step_refresh_ok:
  assumes "take_task c (inflight w) = Some (AwaitRefresh c ep opts, ts)"
    and "ok r" and "JSON_parse e (body_text r) = Some d" and "d \<noteq> JNull" and "d \<noteq> JUndefined"
  shows "step e w (Resolve c (Response r)) =
     (setToken (get_prop d ''access_token'') w)\<lparr>isRefreshing := False, refreshSubscribers := [],
        sent := sent w @ map (resend_of e (setToken (get_prop d ''access_token'') w))
                 (refreshSubscribers w @ [Waiter c ep opts]),
        inflight := ts @ map retry_task (refreshSubscribers w @ [Waiter c ep opts])\<rparr>"
proof -
  have se: "\<And>tok. setToken tok (w\<lparr>inflight := ts\<rparr>) = (setToken tok w)\<lparr>inflight := ts\<rparr>"
    by (simp add: setToken_eq)
  from assms(1) show ?thesis
    by (simp add: refresh_receive_ok [OF assms(2-5)] se)
qed

lemma bearer_header:
  assumes "truthy (token w)"
  shows "out_headers (resend_of e w wt) ''Authorization'' = Some (''Bearer '' @ toStr (token w))"
  using assms by (cases wt) (simp add: build_config_def Let_def is_FormData_def)

section \<open>One refresh for many callers\<close>

lemma first_401_batch:
  assumes "w = run e (init ls) evs"
    and "\<not> isRefreshing w" and "truthy (refreshToken w)"
    and "distinct (map fst ((c, r) # crs))"
    and "\<forall>(c', r')\<in>set ((c, r) # crs). status r' = 401 \<and>
           (\<exists>ep opts. AwaitFetch c' ep opts True \<in> set (inflight w))"
  shows "refresh_calls (run e w (map (\<lambda>(c', r'). Resolve c' (Response r')) ((c, r) # crs))) =
      refresh_calls w + 1 \<and>
    isRefreshing (run e w (map (\<lambda>(c', r'). Resolve c' (Response r')) ((c, r) # crs))) \<and>
    map task_caller (filter is_refresh_task
        (inflight (run e w (map (\<lambda>(c', r'). Resolve c' (Response r')) ((c, r) # crs))))) = [c] \<and>
    map waiter_caller
        (refreshSubscribers (run e w (map (\<lambda>(c', r'). Resolve c' (Response r')) ((c, r) # crs)))) =
      map waiter_caller (refreshSubscribers w) @ map fst crs"
proof -
  from inv_reachable [of e ls evs] assms(1) have i: "inv_refresh w" "inv_callers w"
    by (simp_all add: inv_def)
  from i(2) have d: "distinct (map task_caller (inflight w))"
    by (simp add: inv_callers_def callers_def pending_def)
  from i(1) assms(2) have nr: "filter is_refresh_task (inflight w) = []"
    by (simp add: inv_refresh_def)
  from assms(5) obtain ep opts where r: "status r = 401"
    and t: "AwaitFetch c ep opts True \<in> set (inflight w)"
    by auto
  let ?t = "AwaitFetch c ep opts True"
  let ?ts = "remove1 ?t (inflight w)"
  from take_task_distinct [OF d t]
  have tk: "take_task c (inflight w) = Some (?t, ?ts)" by simp
  define w1 where "w1 = step e w (Resolve c (Response r))"
  have w1: "w1 = w\<lparr>isRefreshing := True, sent := sent w @ [refresh_request e w c],
      inflight := ?ts @ [AwaitRefresh c ep opts]\<rparr>"
    unfolding w1_def by (rule step_first_401_idle [OF tk assms(2,3) r])
  from take_task_Some [OF tk] obtain xs ys where
    l: "inflight w = xs @ ?t # ys" and ts: "?ts = xs @ ys"
    by blast
  from nr l ts have nr': "filter is_refresh_task ?ts = []" by simp
  have p1: "isRefreshing w1" "truthy (refreshToken w1)"
    using assms(3) by (simp_all add: w1)
  have p3: "distinct (map task_caller (inflight w1))"
    using d take_task_callers(2) [OF tk, of "[]" "[]"] by (simp add: w1)
  have p4: "distinct (map fst crs)" using assms(4) by simp
  have p5: "\<forall>(c', r')\<in>set crs. status r' = 401 \<and>
      (\<exists>ep' opts'. AwaitFetch c' ep' opts' True \<in> set (inflight w1))"
  proof (clarify, intro conjI)
    fix c' r' assume m: "(c', r') \<in> set crs"
    with assms(5) show "status r' = 401" by auto
    from m assms(5) obtain ep' opts' where t': "AwaitFetch c' ep' opts' True \<in> set (inflight w)"
      by auto
    from m assms(4) have "c' \<noteq> c" by force
    with t' have "AwaitFetch c' ep' opts' True \<in> set (inflight w1)" by (simp add: w1)
    then show "\<exists>ep' opts'. AwaitFetch c' ep' opts' True \<in> set (inflight w1)" by blast
  qed
  have rc: "run e w (map (\<lambda>(c', r'). Resolve c' (Response r')) ((c, r) # crs)) =
      run e w1 (map (\<lambda>(c', r'). Resolve c' (Response r')) crs)"
    by (simp add: run_def w1_def del: step.simps)
  have s1: "refresh_calls w1 = refresh_calls w + 1"
    "filter is_refresh_task (inflight w1) = [AwaitRefresh c ep opts]"
    "refreshSubscribers w1 = refreshSubscribers w"
    by (simp_all add: w1 refresh_calls_def nr')
  note E = enqueue_run [OF p1 p3 p4 p5, of e]
  from E have "refresh_calls (run e w1 (map (\<lambda>(c', r'). Resolve c' (Response r')) crs)) =
      refresh_calls w1"
    by (simp add: refresh_calls_def)
  with E show ?thesis
    unfolding rc by (simp add: s1)
qed

text \<open>
  Claim C1, as the code has it. In every state reached by an interleaving of calls,
  exactly one call waits for the refresh endpoint while \<^verbatim>\<open>isRefreshing\<close> is set and
  none otherwise. A first attempt that receives a 401 while the flag is set is appended
  to \<^verbatim>\<open>refreshSubscribers\<close> and sends nothing. With the flag down and a refresh
  token at hand, let any number of first attempts receive a 401 one after the other,
  before the refresh answers: the refresh endpoint is called exactly once more, by the
  first of them, however many they are, and the others subscribe.
\<close>

theorem single_flight:
  assumes "w = run e (init ls) evs"
  shows "length (filter is_refresh_task (inflight w)) = (if isRefreshing w then 1 else 0) \<and>
    (isRefreshing w \<and> take_task c (inflight w) = Some (AwaitFetch c ep opts True, ts) \<and>
       status r = 401 \<longrightarrow>
     step e w (Resolve c (Response r)) =
       w\<lparr>inflight := ts, refreshSubscribers := refreshSubscribers w @ [Waiter c ep opts]\<rparr>) \<and>
    (\<not> isRefreshing w \<and> truthy (refreshToken w) \<and> distinct (map fst ((c, r) # crs)) \<and>
       (\<forall>(c', r')\<in>set ((c, r) # crs). status r' = 401 \<and>
           (\<exists>ep opts. AwaitFetch c' ep opts True \<in> set (inflight w))) \<longrightarrow>
     refresh_calls (run e w (map (\<lambda>(c', r'). Resolve c' (Response r')) ((c, r) # crs))) =
       refresh_calls w + 1 \<and>
     isRefreshing (run e w (map (\<lambda>(c', r'). Resolve c' (Response r')) ((c, r) # crs))) \<and>
     map task_caller (filter is_refresh_task
         (inflight (run e w (map (\<lambda>(c', r'). Resolve c' (Response r')) ((c, r) # crs))))) = [c] \<and>
     map waiter_caller
         (refreshSubscribers (run e w (map (\<lambda>(c', r'). Resolve c' (Response r')) ((c, r) # crs)))) =
       map waiter_caller (refreshSubscribers w) @ map fst crs)"
proof (intro conjI impI)
  from inv_reachable [of e ls evs] assms have i: "inv_refresh w"
    by (simp add: inv_def)
  then show "length (filter is_refresh_task (inflight w)) = (if isRefreshing w then 1 else 0)"
    by (simp add: inv_refresh_def)
  assume a: "isRefreshing w \<and> take_task c (inflight w) = Some (AwaitFetch c ep opts True, ts) \<and>
       status r = 401"
  with i have "truthy (refreshToken w)" by (simp add: inv_refresh_def)
  with a show "step e w (Resolve c (Response r)) =
       w\<lparr>inflight := ts, refreshSubscribers := refreshSubscribers w @ [Waiter c ep opts]\<rparr>"
    using step_first_401_refreshing [of c w ep opts ts r e] by blast
next
  assume b: "\<not> isRefreshing w \<and> truthy (refreshToken w) \<and> distinct (map fst ((c, r) # crs)) \<and>
       (\<forall>(c', r')\<in>set ((c, r) # crs). status r' = 401 \<and>
           (\<exists>ep opts. AwaitFetch c' ep opts True \<in> set (inflight w)))"
  then have b1: "\<not> isRefreshing w" and b2: "truthy (refreshToken w)"
    and b3: "distinct (map fst ((c, r) # crs))"
    and b4: "\<forall>(c', r')\<in>set ((c, r) # crs). status r' = 401 \<and>
           (\<exists>ep opts. AwaitFetch c' ep opts True \<in> set (inflight w))"
    by blast+
  note B = first_401_batch [OF assms b1 b2 b3 b4]
  from B show "refresh_calls (run e w (map (\<lambda>(c', r'). Resolve c' (Response r')) ((c, r) # crs))) =
       refresh_calls w + 1" by blast
  from B show "isRefreshing (run e w (map (\<lambda>(c', r'). Resolve c' (Response r')) ((c, r) # crs)))"
    by blast
  from B show "map task_caller (filter is_refresh_task
         (inflight (run e w (map (\<lambda>(c', r'). Resolve c' (Response r')) ((c, r) # crs))))) = [c]"
    by blast
  from B show "map waiter_caller
         (refreshSubscribers (run e w (map (\<lambda>(c', r'). Resolve c' (Response r')) ((c, r) # crs)))) =
       map waiter_caller (refreshSubscribers w) @ map fst crs"
    by blast
qed

theorem single_flight_witness:
  "\<not> isRefreshing (run demo_env (init demo_storage) three_calls) \<and>
   refresh_calls (run demo_env (init demo_storage) three_calls) = 0 \<and>
   refresh_calls (run demo_env (run demo_env (init demo_storage) three_calls)
     [Resolve 1 (Response expired), Resolve 0 (Response expired), Resolve 2 (Response expired)]) = 1 \<and>
   map waiter_caller (refreshSubscribers (run demo_env (run demo_env (init demo_storage) three_calls)
     [Resolve 1 (Response expired), Resolve 0 (Response expired), Resolve 2 (Response expired)])) =
     [0, 2] \<and>
   isRefreshing (run demo_env (init demo_storage) refresh_started) \<and>
   length (filter is_refresh_task (inflight (run demo_env (init demo_storage) refresh_started))) = 1 \<and>
   refreshSubscribers (step demo_env (run demo_env (init demo_storage) refresh_started)
     (Resolve 1 (Response expired))) = [Waiter 1 ''/tickets/'' no_options] \<and>
   sent (step demo_env (run demo_env (init demo_storage) refresh_started)
     (Resolve 1 (Response expired))) = sent (run demo_env (init demo_storage) refresh_started)"
proof -
  let ?w = "run demo_env (init demo_storage) three_calls"
  let ?v = "run demo_env (init demo_storage) refresh_started"
  have a: "\<not> isRefreshing ?w" "truthy (refreshToken ?w)" "refresh_calls ?w = 0"
    "refreshSubscribers ?w = []"
    "inflight ?w = [AwaitFetch 0 ''/assets/'' no_options True,
       AwaitFetch 1 ''/tickets/'' no_options True, AwaitFetch 2 ''/auth/me'' no_options True]"
    by (simp_all add: three_calls_def run_eval)
  have d: "distinct (map fst ((1, expired) # [(0, expired), (2::nat, expired)]))" by simp
  have h: "\<forall>(c', r')\<in>set ((1, expired) # [(0, expired), (2, expired)]). status r' = 401 \<and>
           (\<exists>ep opts. AwaitFetch c' ep opts True \<in> set (inflight ?w))"
    by (simp add: a(5) expired_def)
  have v: "isRefreshing ?v" "refreshSubscribers ?v = []"
    "inflight ?v = [AwaitFetch 1 ''/tickets/'' no_options True, AwaitRefresh 0 ''/assets/'' no_options]"
    by (simp_all add: refresh_started_def run_eval)
  from v(3) have t: "take_task 1 (inflight ?v) =
      Some (AwaitFetch 1 ''/tickets/'' no_options True, [AwaitRefresh 0 ''/assets/'' no_options])"
    by simp
  have s: "status expired = 401" by (simp add: expired_def)
  from single_flight [OF refl, of demo_env demo_storage three_calls 1 _ _ _ expired
      "[(0, expired), (2, expired)]"] a(1,2) d h
  have "refresh_calls (run demo_env ?w
      (map (\<lambda>(c', r'). Resolve c' (Response r')) ((1, expired) # [(0, expired), (2, expired)]))) =
       refresh_calls ?w + 1 \<and>
     map waiter_caller (refreshSubscribers (run demo_env ?w
       (map (\<lambda>(c', r'). Resolve c' (Response r')) ((1, expired) # [(0, expired), (2, expired)])))) =
       map waiter_caller (refreshSubscribers ?w) @ map fst [(0, expired), (2::nat, expired)]"
    by blast
  moreover from single_flight [OF refl, of demo_env demo_storage refresh_started] v(1)
  have "length (filter is_refresh_task (inflight ?v)) = 1"
    by simp
  moreover from single_flight [OF refl, of demo_env demo_storage refresh_started 1
      "''/tickets/''" no_options "[AwaitRefresh 0 ''/assets/'' no_options]" expired] v(1) t s
  have st: "step demo_env ?v (Resolve 1 (Response expired)) =
      ?v\<lparr>inflight := [AwaitRefresh 0 ''/assets/'' no_options],
         refreshSubscribers := refreshSubscribers ?v @ [Waiter 1 ''/tickets/'' no_options]\<rparr>"
    by blast
  have "refreshSubscribers (step demo_env ?v (Resolve 1 (Response expired))) =
      [Waiter 1 ''/tickets/'' no_options]"
    "sent (step demo_env ?v (Resolve 1 (Response expired))) = sent ?v"
    unfolding st by (simp_all add: v(2))
  ultimately show ?thesis using a v(1) by (simp del: step.simps)
qed

text \<open>
  Claim C1 as stated fails: two calls are issued while no refresh is in flight and both
  receive a 401, but the second 401 arrives after the refresh has succeeded. The flag
  \<^verbatim>\<open>isRefreshing\<close> is down again and the refresh token is still there, so the second
  call refreshes once more.
\<close>

theorem late_401_counterexample:
  "\<not> isRefreshing (run demo_env (init demo_storage) two_calls) \<and>
   map out_origin (sent (run demo_env (init demo_storage) late_401)) =
     [RequestOf 0, RequestOf 1, RefreshOf 0, RequestOf 0, RefreshOf 1] \<and>
   refresh_calls (run demo_env (init demo_storage) late_401) = 2"
  by (simp add: late_401_def run_eval)

section \<open>A request is retried once at most\<close>

lemma dec_401: "dec 401 = ''401''"
  by (simp add: dec.simps)

lemma read_response_401:
  assumes "status r = 401"
  shows "read_response e r =
     Inl (case read_data e r of
            None \<Rightarrow> SyntaxError
          | Some d \<Rightarrow>
              if d = JNull \<or> d = JUndefined then TypeError
              else Error (if truthy (get_prop d ''detail'') then toStr (get_prop d ''detail'')
                          else if truthy (get_prop d ''message'') then toStr (get_prop d ''message'')
                          else ''API request failed: 401''))"
proof -
  from assms have "\<not> ok r" by (simp add: ok_def)
  then show ?thesis
    by (auto simp: read_response_def error_message_def member_def assms dec_401
          split: option.splits)
qed

text \<open>
  Claim C3, as the code has it. In every interleaving the request of a caller goes out
  at most twice; a call in flight has gone out once when it is a first attempt and twice
  when it is the retry, which runs with \<^verbatim>\<open>retryOnUnauthorized = false\<close>. When the
  retry receives a 401, nothing is sent, no refresh starts and nobody subscribes: the
  call leaves the calls in flight and its caller is rejected, with the error every
  response that is not ok gives: a \<^verbatim>\<open>SyntaxError\<close> when the body does not parse, a
  \<^verbatim>\<open>TypeError\<close> when it is \<^verbatim>\<open>null\<close>, and otherwise an \<^verbatim>\<open>Error\<close> whose message is
  \<^verbatim>\<open>detail\<close>, else \<^verbatim>\<open>message\<close>, else \<^verbatim>\<open>API request failed: 401\<close>.
\<close>

theorem retry_bound:
  "sends (run e (init ls) evs) c \<le> 2 \<and>
   (\<forall>t\<in>set (inflight (run e (init ls) evs)).
      sends (run e (init ls) evs) (task_caller t) = (if first_attempt t then 1 else 2)) \<and>
   (\<forall>w ep opts ts r.
      take_task c (inflight w) = Some (AwaitFetch c ep opts False, ts) \<and> status r = 401 \<longrightarrow>
      step e w (Resolve c (Response r)) =
        w\<lparr>inflight := ts,
          settled := settled w @
            [(c, Inl (case read_data e r of
                        None \<Rightarrow> SyntaxError
                      | Some d \<Rightarrow>
                          if d = JNull \<or> d = JUndefined then TypeError
                          else Error (if truthy (get_prop d ''detail'')
                                        then toStr (get_prop d ''detail'')
                                      else if truthy (get_prop d ''message'')
                                        then toStr (get_prop d ''message'')
                                      else ''API request failed: 401'')))]\<rparr>)"
proof -
  from inv_reachable [of e ls evs] have "inv_sends (run e (init ls) evs)"
    by (simp add: inv_def)
  then have a: "sends (run e (init ls) evs) c \<le> 2"
    and b: "\<forall>t\<in>set (inflight (run e (init ls) evs)).
      sends (run e (init ls) evs) (task_caller t) = (if first_attempt t then 1 else 2)"
    by (simp_all add: inv_sends_def)
  have c: "step e w (Resolve c (Response r)) =
        w\<lparr>inflight := ts,
          settled := settled w @
            [(c, Inl (case read_data e r of
                        None \<Rightarrow> SyntaxError
                      | Some d \<Rightarrow>
                          if d = JNull \<or> d = JUndefined then TypeError
                          else Error (if truthy (get_prop d ''detail'')
                                        then toStr (get_prop d ''detail'')
                                      else if truthy (get_prop d ''message'')
                                        then toStr (get_prop d ''message'')
                                      else ''API request failed: 401'')))]\<rparr>"
    if "take_task c (inflight w) = Some (AwaitFetch c ep opts False, ts)" "status r = 401"
    for w ep opts ts r
    using step_retry [OF that(1), of e r] by (simp only: read_response_401 [OF that(2)])
  from a b c show ?thesis by blast
qed

theorem retry_bound_witness:
  "inflight (run demo_env (init demo_storage) retried_once) =
     [AwaitFetch 0 ''/assets/'' no_options False] \<and>
   sends (run demo_env (init demo_storage) retried_once) 0 = 2 \<and>
   settled (step demo_env (run demo_env (init demo_storage) retried_once)
      (Resolve 0 (Response expired))) = [(0, Inl (Error ''Token expired''))] \<and>
   inflight (step demo_env (run demo_env (init demo_storage) retried_once)
      (Resolve 0 (Response expired))) = [] \<and>
   refresh_calls (step demo_env (run demo_env (init demo_storage) retried_once)
      (Resolve 0 (Response expired))) = 1 \<and>
   sends (step demo_env (run demo_env (init demo_storage) retried_once)
      (Resolve 0 (Response expired))) 0 = 2"
proof -
  let ?w = "run demo_env (init demo_storage) retried_once"
  have i: "inflight ?w = [AwaitFetch 0 ''/assets/'' no_options False]"
    and st: "settled ?w = []" and rc: "refresh_calls ?w = 1"
    by (simp_all add: retried_once_def run_eval)
  from i have t: "take_task 0 (inflight ?w) = Some (AwaitFetch 0 ''/assets/'' no_options False, [])"
    by simp
  have s: "status expired = 401" by (simp add: expired_def)
  have rd: "read_data demo_env expired = Some (one_field ''detail'' ''Token expired'')"
    by (simp add: run_eval)
  from retry_bound [of demo_env demo_storage retried_once 0] i
  have two: "sends ?w 0 = 2" by simp
  from retry_bound [of demo_env demo_storage retried_once 0] t s
  have sx: "step demo_env ?w (Resolve 0 (Response expired)) =
      ?w\<lparr>inflight := [], settled := settled ?w @ [(0, Inl (Error ''Token expired''))]\<rparr>"
    by (simp add: rd one_field_def del: step.simps)
  have "settled (step demo_env ?w (Resolve 0 (Response expired))) = [(0, Inl (Error ''Token expired''))]"
    "inflight (step demo_env ?w (Resolve 0 (Response expired))) = []"
    "refresh_calls (step demo_env ?w (Resolve 0 (Response expired))) = 1"
    "sends (step demo_env ?w (Resolve 0 (Response expired))) 0 = 2"
    unfolding sx using st rc two by (simp_all add: refresh_calls_def sends_def)
  with i two show ?thesis by (simp del: step.simps)
qed

text \<open>
  Claim C3 as stated fails in that the rejection is no authentication failure of its
  own: a retry that receives a 401 with a page of HTML rejects with the
  \<^verbatim>\<open>SyntaxError\<close> a 200 with that page gives, and one that receives a 401 with the
  detail of a 404 rejects with the very error of that 404.
\<close>

theorem retry_bound_counterexample:
  "status (html_page 401) = 401 \<and>
   settled (run demo_env (init demo_storage) (retried_once @ [Resolve 0 (Response (html_page 401))])) =
     [(0, Inl SyntaxError)] \<and>
   settled (run demo_env (init demo_storage)
      [Call ''/assets/'' no_options, Resolve 0 (Response (html_page 200))]) =
     [(0, Inl SyntaxError)] \<and>
   status (not_found 401) = 401 \<and>
   settled (run demo_env (init demo_storage) (retried_once @ [Resolve 0 (Response (not_found 401))])) =
     [(0, Inl (Error ''Not found''))] \<and>
   settled (run demo_env (init demo_storage)
      [Call ''/assets/'' no_options, Resolve 0 (Response (not_found 404))]) =
     [(0, Inl (Error ''Not found''))]"
  by (simp add: retried_once_def run_eval html_page_def)

section \<open>A successful refresh resends every waiting request\<close>

text \<open>
  Claim C4. In a state reached by any interleaving, let the refresh endpoint answer ok
  with a truthy \<^verbatim>\<open>access_token\<close>. Then this token is stored, the flag is down, the
  subscriber list is empty, and what is sent is exactly one request for each subscriber,
  in order, and one for the call that ran the refresh. These callers are all different,
  each request carries \<^verbatim>\<open>Authorization: Bearer\<close> with the new token, each of these
  requests had gone out once before, and has gone out twice whatever happens later.
\<close>

theorem fan_out_success:
  assumes "w = run e (init ls) evs"
    and "take_task c (inflight w) = Some (AwaitRefresh c ep opts, ts)"
    and "ok r" and "JSON_parse e (body_text r) = Some d"
    and "get_prop d ''access_token'' = tok" and "truthy tok"
    and "w' = step e w (Resolve c (Response r))"
    and "ws = refreshSubscribers w @ [Waiter c ep opts]"
  shows "token w' = tok \<and> \<not> isRefreshing w' \<and> refreshSubscribers w' = [] \<and>
    sent w' = sent w @ map (resend_of e w') ws \<and>
    inflight w' = ts @ map retry_task ws \<and>
    distinct (map waiter_caller ws) \<and>
    (\<forall>wt\<in>set ws.
       out_headers (resend_of e w' wt) ''Authorization'' = Some (''Bearer '' @ toStr tok) \<and>
       sends w (waiter_caller wt) = 1 \<and>
       (\<forall>evs'. sends (run e w' evs') (waiter_caller wt) = 2))"
proof -
  from assms(5,6) have dn: "d \<noteq> JNull" "d \<noteq> JUndefined" by auto
  note st = step_refresh_ok [OF assms(2,3,4) dn, folded assms(7), unfolded assms(5)]
  have tk: "token w' = tok" and nr: "\<not> isRefreshing w'" and ns: "refreshSubscribers w' = []"
    and infl: "inflight w' = ts @ map retry_task ws"
    by (simp_all add: st assms(8))
  have rs: "resend_of e w' = resend_of e (setToken tok w)"
    by (simp add: st)
  have se: "sent w' = sent w @ map (resend_of e w') ws"
    unfolding rs by (simp add: st assms(8))
  from inv_reachable [of e ls evs] assms(1) have i: "inv_callers w" "inv_sends w"
    by (simp_all add: inv_def)
  note T = inv_callers_take [OF i(1) assms(2)]
  from T(3) T(9) have di: "distinct (map waiter_caller ws)"
    by (simp add: assms(8))
  have i': "inv w'"
    unfolding assms(7) assms(1) run_snoc [symmetric] by (rule inv_reachable)
  from assms(6) tk have tt: "truthy (token w')" by simp
  have each: "out_headers (resend_of e w' wt) ''Authorization'' = Some (''Bearer '' @ toStr tok) \<and>
       sends w (waiter_caller wt) = 1 \<and>
       (\<forall>evs'. sends (run e w' evs') (waiter_caller wt) = 2)"
    if m: "wt \<in> set ws" for wt
  proof (intro conjI allI)
    show "out_headers (resend_of e w' wt) ''Authorization'' = Some (''Bearer '' @ toStr tok)"
      using bearer_header [OF tt, of e wt] by (simp only: tk)
    from inv_sends_task(1) [OF i(2) assms(2)] have c1: "sends w c = 1" by simp
    from i(2) have w1: "\<forall>wt\<in>set (refreshSubscribers w). sends w (waiter_caller wt) = 1"
      by (simp add: inv_sends_def)
    from m c1 w1 show one: "sends w (waiter_caller wt) = 1"
      by (auto simp: assms(8))
    from m have "retry_task wt \<in> set (inflight w')" by (simp add: infl)
    moreover from i' have "inv_sends w'" by (simp add: inv_def)
    ultimately have two: "sends w' (waiter_caller wt) = 2"
      by (force simp: inv_sends_def)
    fix evs'
    from inv_run [OF i', of e evs'] have "sends (run e w' evs') (waiter_caller wt) \<le> 2"
      by (simp add: inv_def inv_sends_def)
    moreover from sends_mono_run [of w' "waiter_caller wt" e evs'] two
    have "2 \<le> sends (run e w' evs') (waiter_caller wt)" by simp
    ultimately show "sends (run e w' evs') (waiter_caller wt) = 2" by simp
  qed
  from tk nr ns se infl di each show ?thesis by blast
qed

theorem fan_out_success_witness:
  "refreshSubscribers (run demo_env (init demo_storage) both_waiting) =
     [Waiter 1 ''/tickets/'' no_options] \<and>
   token (step demo_env (run demo_env (init demo_storage) both_waiting)
     (Resolve 0 (Response refreshed))) = JStr ''A2'' \<and>
   refreshSubscribers (step demo_env (run demo_env (init demo_storage) both_waiting)
     (Resolve 0 (Response refreshed))) = [] \<and>
   inflight (step demo_env (run demo_env (init demo_storage) both_waiting)
     (Resolve 0 (Response refreshed))) =
     [AwaitFetch 1 ''/tickets/'' no_options False, AwaitFetch 0 ''/assets/'' no_options False] \<and>
   map out_origin (sent (step demo_env (run demo_env (init demo_storage) both_waiting)
     (Resolve 0 (Response refreshed)))) =
     [RequestOf 0, RequestOf 1, RefreshOf 0, RequestOf 1, RequestOf 0] \<and>
   out_headers (sent (step demo_env (run demo_env (init demo_storage) both_waiting)
     (Resolve 0 (Response refreshed))) ! 3) ''Authorization'' = Some ''Bearer A2'' \<and>
   out_headers (sent (step demo_env (run demo_env (init demo_storage) both_waiting)
     (Resolve 0 (Response refreshed))) ! 4) ''Authorization'' = Some ''Bearer A2'' \<and>
   sends (run demo_env (step demo_env (run demo_env (init demo_storage) both_waiting)
     (Resolve 0 (Response refreshed))) [Resolve 1 (Response expired)]) 1 = 2"
proof -
  let ?w = "run demo_env (init demo_storage) both_waiting"
  let ?w' = "step demo_env ?w (Resolve 0 (Response refreshed))"
  let ?ws = "[Waiter 1 ''/tickets/'' no_options, Waiter 0 ''/assets/'' no_options]"
  have a: "inflight ?w = [AwaitRefresh 0 ''/assets/'' no_options]"
    "refreshSubscribers ?w = [Waiter 1 ''/tickets/'' no_options]"
    "map out_origin (sent ?w) = [RequestOf 0, RequestOf 1, RefreshOf 0]"
    by (simp_all add: both_waiting_def run_eval)
  from a(1) have t: "take_task 0 (inflight ?w) = Some (AwaitRefresh 0 ''/assets/'' no_options, [])"
    by simp
  have r: "ok refreshed" "JSON_parse demo_env (body_text refreshed) = Some (one_field ''access_token'' ''A2'')"
    "get_prop (one_field ''access_token'' ''A2'') ''access_token'' = JStr ''A2''" "truthy (JStr ''A2'')"
    by (simp_all add: refreshed_def ok_def demo_env_def demo_parse_def one_field_def)
  have ws: "?ws = refreshSubscribers ?w @ [Waiter 0 ''/assets/'' no_options]"
    by (simp add: a(2))
  note F = fan_out_success [OF refl t r refl ws]
  have len: "length (sent ?w) = 3"
    using arg_cong [OF a(3), of length] by simp
  from F have s: "sent ?w' = sent ?w @ map (resend_of demo_env ?w') ?ws" by blast
  from F have h: "\<forall>wt\<in>set ?ws.
      out_headers (resend_of demo_env ?w' wt) ''Authorization'' = Some (''Bearer '' @ ''A2'')"
    by simp
  from F have n: "\<forall>wt\<in>set ?ws. \<forall>evs'. sends (run demo_env ?w' evs') (waiter_caller wt) = 2"
    by blast
  from len have n3: "sent ?w' ! 3 = resend_of demo_env ?w' (Waiter 1 ''/tickets/'' no_options)"
    and n4: "sent ?w' ! 4 = resend_of demo_env ?w' (Waiter 0 ''/assets/'' no_options)"
    unfolding s by (simp_all add: nth_append del: step.simps resend_of.simps)
  have o: "map out_origin (sent ?w') = [RequestOf 0, RequestOf 1, RefreshOf 0, RequestOf 1, RequestOf 0]"
    unfolding s by (simp add: a(3) del: step.simps)
  from F a(2) o h n show ?thesis
    unfolding n3 n4 by (simp del: step.simps resend_of.simps)
qed

section \<open>A failed refresh leaves its subscribers behind\<close>

text \<open>
  Subscribers are only added while a refresh is in flight, and a successful refresh
  empties the list. The one event after which subscribers remain although no refresh
  is in flight is a refresh that fails: it clears the session and keeps the list.
\<close>

lemma waiters_step:
  assumes "refreshSubscribers w = [] \<or> isRefreshing w"
  shows "refreshSubscribers (step e w ev) = [] \<or> isRefreshing (step e w ev) \<or>
    (\<exists>c fr ep opts ts. ev = Resolve c fr \<and>
       take_task c (inflight w) = Some (AwaitRefresh c ep opts, ts) \<and>
       refreshToken (step e w ev) = JNull \<and>
       refreshSubscribers (step e w ev) = refreshSubscribers w)"
proof (cases ev)
  case (Call ep opts)
  with assms show ?thesis by (auto simp: request_send_def)
next
  case (Resolve c fr)
  define w' where "w' = step e w (Resolve c fr)"
  have "refreshSubscribers w' = [] \<or> isRefreshing w' \<or>
    (\<exists>ep opts ts. take_task c (inflight w) = Some (AwaitRefresh c ep opts, ts) \<and>
       refreshToken w' = JNull \<and> refreshSubscribers w' = refreshSubscribers w)"
  proof (cases rule: step_Resolve_cases [where c = c and w = w and e = e and fr = fr])
    case Idle
    with assms show ?thesis by (auto simp: w'_def)
  next
    case (Settle ep opts retry ts res)
    from Settle(2) [folded w'_def] assms show ?thesis by auto
  next
    case (Start ep opts ts)
    from Start(4) [folded w'_def] show ?thesis by simp
  next
    case (Enqueue ep opts ts)
    from Enqueue(4) [folded w'_def] Enqueue(2) show ?thesis by simp
  next
    case (Fail ep opts ts x)
    from Fail(2) [folded w'_def] Fail(1) show ?thesis by simp
  next
    case (Success ep opts ts tok)
    from Success(2) [folded w'_def] show ?thesis by simp
  qed
  then show ?thesis unfolding w'_def Resolve by blast
qed

text \<open>
  Claim C2 fails on the code. Two calls receive a 401, the second subscribes to the
  refresh of the first, and the refresh endpoint answers 401. The first caller is
  rejected, the session is cleared and the page is sent to \<^verbatim>\<open>/login\<close>, but the
  \<^verbatim>\<open>catch\<close> of lines 120 to 127 never calls the subscribers: the second caller is
  still in \<^verbatim>\<open>refreshSubscribers\<close>, nothing is in flight for it, and its promise is
  not settled.
\<close>

theorem failed_refresh_keeps_waiter:
  "settled (run demo_env (init demo_storage) failed_refresh) =
     [(0, Inl (Error ''Token refresh failed''))] \<and>
   refreshSubscribers (run demo_env (init demo_storage) failed_refresh) =
     [Waiter 1 ''/tickets/'' no_options] \<and>
   inflight (run demo_env (init demo_storage) failed_refresh) = [] \<and>
   token (run demo_env (init demo_storage) failed_refresh) = JNull \<and>
   refreshToken (run demo_env (init demo_storage) failed_refresh) = JNull \<and>
   getItem (run demo_env (init demo_storage) failed_refresh) ''accessToken'' = None \<and>
   getItem (run demo_env (init demo_storage) failed_refresh) ''refreshToken'' = None \<and>
   getItem (run demo_env (init demo_storage) failed_refresh) ''user'' = None \<and>
   location (run demo_env (init demo_storage) failed_refresh) = Some ''/login''"
  by (simp add: failed_refresh_def run_eval)

text \<open>
  Claim C5 fails on the code for the same reason. Three calls receive a 401 and the fetch
  of the refresh fails: afterwards \<^verbatim>\<open>isRefreshing\<close> is false and
  \<^verbatim>\<open>refreshSubscribers\<close> still holds the two callers that subscribed.
\<close>

theorem waiters_outlive_refresh:
  "\<not> isRefreshing (run demo_env (init demo_storage) lost_waiters) \<and>
   map waiter_caller (refreshSubscribers (run demo_env (init demo_storage) lost_waiters)) = [1, 2] \<and>
   inflight (run demo_env (init demo_storage) lost_waiters) = []"
  by (simp add: lost_waiters_def three_calls_def run_eval)

end
